theory Spec2Isabelle
  imports Complex_Main "HOL-Library.Word" "HOL-Library.Log_Nat"
begin

section \<open>The audio player of \<open>src/audio_player.py\<close>\<close>

text \<open>
  The class \<open>AUDIO_PLAYER\<close> plays a mono WAVE file on a converter (DAC) or on a
  pulse-width (PWM) output.  Python integers are \<open>int\<close>, counts of frames are \<open>nat\<close>,
  raw file bytes are \<open>8 word\<close>, floats are the rationals of a given precision.  Every
  Python exception is a value of \<open>error\<close>; a method
  returns an \<open>outcome\<close> that carries the object as it is when the method returns or raises.
\<close>

subsection \<open>Module constants\<close>

definition TIMER :: nat where "TIMER = 2"
definition CHANNEL :: nat where "CHANNEL = 4"
definition PIN :: string where "PIN = ''A3''"
definition DAC_PORT :: nat where "DAC_PORT = 1"
definition FREQ :: nat where "FREQ = 120000"

subsection \<open>The sample source (module \<open>wave\<close>)\<close>

type_synonym byte = "8 word"

text \<open>
  Modelled from the spec: the library \<open>wave\<close> is imported, not part of the sources.  Section
  4.1 of the specification gives its contract: a read returns up to the requested number
  of frames starting at the cursor and advances the cursor by the number of frames
  returned, fewer at the end of the stream; a seek repositions the cursor.  The frame count
  is the size of the data divided by the size of a frame.  The files are mono, so that a
  frame is one sample of \<open>sampwidth\<close> bytes.  The field \<open>read_log\<close> records every read,
  oldest first, as the cursor it started at and the number of frames it returned.
\<close>

record wave_read =
  sampwidth :: nat
  framerate_hdr :: nat
  frames :: "byte list"
  soundpos :: nat
  read_log :: "(nat \<times> nat) list"

datatype error = AttributeError | IndexError | ZeroDivisionError | ValueError
  | WaveError | OSError

definition getsampwidth :: "wave_read \<Rightarrow> nat" where
  "getsampwidth w = sampwidth w"

definition getframerate :: "wave_read \<Rightarrow> nat" where
  "getframerate w = framerate_hdr w"

definition getnframes :: "wave_read \<Rightarrow> nat" where
  "getnframes w = length (frames w) div sampwidth w"

definition readframes :: "nat \<Rightarrow> wave_read \<Rightarrow> byte list \<times> wave_read" where
  "readframes n w =
     (let chunk = take (n * sampwidth w) (drop (soundpos w * sampwidth w) (frames w))
      in (chunk, w\<lparr>soundpos := soundpos w + length chunk div sampwidth w,
                   read_log := read_log w @ [(soundpos w, length chunk div sampwidth w)]\<rparr>))"

definition setpos :: "nat \<Rightarrow> wave_read \<Rightarrow> error + wave_read" where
  "setpos p w = (if getnframes w < p then Inl WaveError else Inr (w\<lparr>soundpos := p\<rparr>))"

subsection \<open>The output peripherals\<close>

text \<open>
  The peripherals of \<open>pyb\<close> are outside the sources.  A configured peripheral is the
  record of the arguments it was created with, and every value handed to a peripheral is an
  event of the output trace, oldest first.
\<close>

datatype timer_dev = Timer nat nat nat
datatype pwm_dev = PwmChannel nat string nat
datatype dac_dev = Dac nat nat

datatype hw_event =
    PulseWidth int
  | DacWrite int
  | DacWriteTimed "byte list" nat

subsection \<open>The object\<close>

record audio_player =
  filename :: string
  pwm_mode :: bool
  loop :: bool
  dac :: "dac_dev option"
  pwm_out :: "pwm_dev option"
  timer :: "timer_dev option"
  audiofile :: "wave_read option"
  adatawidth :: nat
  framedata :: "byte list"
  buffersize :: nat
  ready :: bool
  threading :: bool
  volumes :: "int list"
  volume :: int
  fstop :: bool
  total_frames :: nat
  framerate :: nat
  hw_trace :: "hw_event list"

datatype outcome = Returned audio_player | Raised error audio_player

text \<open>
  \<open>__init__\<close>.  The attributes \<open>total_frames\<close> and \<open>framerate\<close> exist only after
  \<open>begin\<close>; no method reads them before \<open>ready\<close> is set, and they start at 0 here.
  \<open>framedata\<close> starts as \<open>None\<close> in the source and is assigned before every use; it
  starts empty here.  \<open>pthread\<close> is assigned and never read and is left out;
  \<open>period\<close> is only handed to the delay, and is the function \<open>period\<close> of the frame
  rate below rather than a field.  The field \<open>hw_trace\<close> is the trace of the peripherals,
  empty at construction.
\<close>

definition init :: "string \<Rightarrow> bool \<Rightarrow> bool \<Rightarrow> bool \<Rightarrow> audio_player" where
  "init fname pwm lp thread =
     \<lparr> filename = fname, pwm_mode = pwm, loop = lp, dac = None, pwm_out = None,
       timer = None, audiofile = None, adatawidth = 8, framedata = [],
       buffersize = 2048, ready = False, threading = thread,
       volumes = [49, 31, 21, 15, 11, 9, 7, 6, 5, 4, 3, 2, 1], volume = 10,
       fstop = True, total_frames = 0, framerate = 0, hw_trace = [] \<rparr>"

subsection \<open>Volume controls\<close>

definition volume_up :: "audio_player \<Rightarrow> audio_player" where
  "volume_up self = (if volume self < 12 then self\<lparr>volume := volume self + 1\<rparr> else self)"

definition volume_down :: "audio_player \<Rightarrow> audio_player" where
  "volume_down self = (if volume self > 0 then self\<lparr>volume := volume self - 1\<rparr> else self)"

definition set_volume :: "int \<Rightarrow> audio_player \<Rightarrow> audio_player" where
  "set_volume v self = (if 0 \<le> v \<and> v \<le> 12 then self\<lparr>volume := v\<rparr> else self)"

subsection \<open>Python primitives\<close>

text \<open>
  \<open>range(start, stop, step)\<close> for a positive step.  A step of 0 makes Python raise
  \<open>ValueError\<close>; the callers test for it before they build the range.
\<close>

function py_range :: "nat \<Rightarrow> nat \<Rightarrow> nat \<Rightarrow> nat list" where
  "py_range start stop step =
     (if step = 0 \<or> stop \<le> start then [] else start # py_range (start + step) stop step)"
  by pat_completeness auto
termination
  by (relation "measure (\<lambda>(start, stop, step). stop - start)") auto

declare py_range.simps [simp del]

text \<open>\<open>xs[i]\<close> on a list: a negative index counts from the end, anything else raises.\<close>

definition py_index :: "'a list \<Rightarrow> int \<Rightarrow> 'a option" where
  "py_index xs i =
     (if 0 \<le> i \<and> i < int (length xs) then Some (xs ! nat i)
      else if i < 0 \<and> - int (length xs) \<le> i then Some (xs ! nat (int (length xs) + i))
      else None)"

text \<open>
  \<open>array.array('B', data)\<close> reads every byte as an unsigned item.
  \<open>array.array('h', data)\<close> reads two bytes, low byte first, as a signed 16-bit item; a
  trailing odd byte gives no item.
\<close>

definition array_B :: "byte list \<Rightarrow> int list" where
  "array_B bs = map uint bs"

fun array_h :: "byte list \<Rightarrow> int list" where
  "array_h (lo # hi # bs) =
     (let u = uint lo + 256 * uint hi
      in (if u < 32768 then u else u - 65536) # array_h bs)"
| "array_h bs = []"

subsection \<open>Peripheral writes\<close>

definition pulse_width :: "int \<Rightarrow> audio_player \<Rightarrow> audio_player" where
  "pulse_width v self = self\<lparr>hw_trace := hw_trace self @ [PulseWidth v]\<rparr>"

definition dac_write :: "int \<Rightarrow> audio_player \<Rightarrow> outcome" where
  "dac_write v self =
     (case dac self of
        None \<Rightarrow> Raised AttributeError self
      | Some d \<Rightarrow> Returned (self\<lparr>hw_trace := hw_trace self @ [DacWrite v]\<rparr>))"

subsection \<open>\<open>begin\<close> and \<open>stop\<close>\<close>

text \<open>
  \<open>wave.open\<close> looks the name up in the file system \<open>fs\<close> and yields a reader at frame 0
  that has read nothing.  The names \<open>pyb\<close> and \<open>machine\<close>, which \<open>begin\<close> uses without
  an import of its own, are taken to be bound, as they are when the file runs as the
  board's main script.
  \<open>pclk1\<close> is the third component of \<open>pyb.freq()\<close>.
\<close>

definition wave_open :: "(string \<rightharpoonup> wave_read) \<Rightarrow> string \<Rightarrow> error + wave_read" where
  "wave_open fs name =
     (case fs name of None \<Rightarrow> Inl OSError | Some w \<Rightarrow> Inr (w\<lparr>soundpos := 0, read_log := []\<rparr>))"

definition begin' :: "(string \<rightharpoonup> wave_read) \<Rightarrow> nat \<Rightarrow> audio_player \<Rightarrow> outcome" where
  "begin' fs pclk1 self =
     (case wave_open fs (filename self) of
        Inl e \<Rightarrow> Raised e self
      | Inr w \<Rightarrow>
          let self1 = self\<lparr>audiofile := Some w\<rparr>;
              self2 = self1\<lparr>adatawidth := (if getsampwidth w > 1 then 12 else 8)\<rparr>;
              self3 =
                (if pwm_mode self2
                 then let pr = (pclk1 * 2) div 255 div FREQ;
                          self2a = self2\<lparr>timer := Some (Timer TIMER pr 255)\<rparr>
                      in self2a\<lparr>pwm_out := Some (PwmChannel CHANNEL PIN 50)\<rparr>
                 else self2\<lparr>dac := Some (Dac DAC_PORT (adatawidth self2))\<rparr>);
              self4 = self3\<lparr>total_frames := getnframes w\<rparr>;
              self5 = self4\<lparr>framerate := getframerate w\<rparr>
          in Returned (self5\<lparr>ready := True\<rparr>))"

definition stop :: "audio_player \<Rightarrow> outcome" where
  "stop self =
     (if \<not> ready self then Returned self
      else let self1 = self\<lparr>fstop := True\<rparr>
           in if loop self1 then dac_write 0 self1 else Returned self1)"

subsection \<open>The controller beside a running stream\<close>

text \<open>
  With \<open>thread = True\<close> the streaming loop runs in its own thread while the caller goes on
  using the volume controls and \<open>stop\<close>.  The loop reads the shared attributes at two
  places in each chunk iteration: \<open>fstop\<close> at the top, \<open>volume\<close> after the chunk has been
  read.  A schedule gives, for each iteration in turn, the calls the controller completes
  before the first read and those it completes between the two reads; an exhausted schedule
  means no further calls.  An exception of \<open>stop\<close> is raised in the controller, not in
  the stream, which sees the attributes as \<open>stop\<close> left them.
\<close>

datatype command = VolumeUp | VolumeDown | SetVolume int | Stop

type_synonym schedule = "(command list \<times> command list) list"

fun state_of :: "outcome \<Rightarrow> audio_player" where
  "state_of (Returned self) = self"
| "state_of (Raised e self) = self"

fun raised :: "outcome \<Rightarrow> error option" where
  "raised (Returned self) = None"
| "raised (Raised e self) = Some e"

fun run_command :: "command \<Rightarrow> audio_player \<Rightarrow> audio_player" where
  "run_command VolumeUp self = volume_up self"
| "run_command VolumeDown self = volume_down self"
| "run_command (SetVolume v) self = set_volume v self"
| "run_command Stop self = state_of (stop self)"

fun run_commands :: "command list \<Rightarrow> audio_player \<Rightarrow> audio_player" where
  "run_commands [] self = self"
| "run_commands (c # cs) self = run_commands cs (run_command c self)"

definition before_check :: "schedule \<Rightarrow> command list" where
  "before_check sched = (case sched of [] \<Rightarrow> [] | x # xs \<Rightarrow> fst x)"

definition before_volume :: "schedule \<Rightarrow> command list" where
  "before_volume sched = (case sched of [] \<Rightarrow> [] | x # xs \<Rightarrow> snd x)"

subsection \<open>The streaming loops\<close>

text \<open>
  The inner loop \<open>for i in range(self.buffersize)\<close> over the indices it visits.  In
  \<open>_play8\<close> the item is divided first and then handed to whichever output is there; in
  \<open>_play16\<close> the output is chosen first.  \<open>custom_delay\<close> only waits.
\<close>

fun write8 :: "nat list \<Rightarrow> int list \<Rightarrow> int \<Rightarrow> audio_player \<Rightarrow> outcome" where
  "write8 [] buf vol self = Returned self"
| "write8 (i # rest) buf vol self =
     (if length buf \<le> i then Raised IndexError self
      else if vol = 0 then Raised ZeroDivisionError self
      else let sample = buf ! i div vol
           in (case pwm_out self of
                 Some ch \<Rightarrow> write8 rest buf vol (pulse_width sample self)
               | None \<Rightarrow>
                   (case dac_write sample self of
                      Raised e s \<Rightarrow> Raised e s
                    | Returned s \<Rightarrow> write8 rest buf vol s)))"

fun write16 :: "nat list \<Rightarrow> int list \<Rightarrow> int \<Rightarrow> audio_player \<Rightarrow> outcome" where
  "write16 [] buf vol self = Returned self"
| "write16 (i # rest) buf vol self =
     (case pwm_out self of
        Some ch \<Rightarrow>
          (if length buf \<le> i then Raised IndexError self
           else if vol = 0 then Raised ZeroDivisionError self
           else write16 rest buf vol (pulse_width (128 + buf ! i div vol) self))
      | None \<Rightarrow>
          (if length buf \<le> i then Raised IndexError self
           else if vol = 0 then Raised ZeroDivisionError self
           else (case dac_write (2048 + buf ! i div vol) self of
                   Raised e s \<Rightarrow> Raised e s
                 | Returned s \<Rightarrow> write16 rest buf vol s)))"

text \<open>
  The body of one chunk iteration after the test of \<open>fstop\<close>: read, convert, seek, take
  the volume, write the samples.  \<open>mid\<close> are the controller's calls that complete before the
  volume is taken.
\<close>

definition chunk8 :: "nat \<Rightarrow> command list \<Rightarrow> audio_player \<Rightarrow> outcome" where
  "chunk8 position mid self =
     (case audiofile self of
        None \<Rightarrow> Raised AttributeError self
      | Some w \<Rightarrow>
          (case readframes (buffersize self) w of
             (data, w1) \<Rightarrow>
               let self1 = self\<lparr>framedata := data, audiofile := Some w1\<rparr>;
                   buf = array_B (framedata self1)
               in (case setpos position w1 of
                     Inl e \<Rightarrow> Raised e self1
                   | Inr w2 \<Rightarrow>
                       let self2 = run_commands mid (self1\<lparr>audiofile := Some w2\<rparr>)
                       in (case py_index (volumes self2) (volume self2) of
                             None \<Rightarrow> Raised IndexError self2
                           | Some vol \<Rightarrow> write8 [0..<buffersize self2] buf vol self2))))"

definition chunk16 :: "nat \<Rightarrow> command list \<Rightarrow> audio_player \<Rightarrow> outcome" where
  "chunk16 position mid self =
     (case audiofile self of
        None \<Rightarrow> Raised AttributeError self
      | Some w \<Rightarrow>
          (case readframes (buffersize self) w of
             (data, w1) \<Rightarrow>
               let self1 = self\<lparr>framedata := data, audiofile := Some w1\<rparr>;
                   buf = array_h (framedata self1)
               in (case setpos position w1 of
                     Inl e \<Rightarrow> Raised e self1
                   | Inr w2 \<Rightarrow>
                       let self2 = run_commands mid (self1\<lparr>audiofile := Some w2\<rparr>)
                       in (case py_index (volumes self2) (volume self2) of
                             None \<Rightarrow> Raised IndexError self2
                           | Some vol0 \<Rightarrow>
                               let vol = vol0 * (if pwm_out self2 \<noteq> None then 128 else 16)
                               in write16 [0..<buffersize self2] buf vol self2))))"

text \<open>The outer loop over the positions of the range, with the controller beside it.\<close>

fun loop8 :: "nat list \<Rightarrow> schedule \<Rightarrow> audio_player \<Rightarrow> outcome" where
  "loop8 [] sched self = Returned self"
| "loop8 (position # rest) sched self =
     (let self0 = run_commands (before_check sched) self
      in if fstop self0 then Returned self0
         else (case chunk8 position (before_volume sched) self0 of
                 Raised e s \<Rightarrow> Raised e s
               | Returned s \<Rightarrow> loop8 rest (tl sched) s))"

fun loop16 :: "nat list \<Rightarrow> schedule \<Rightarrow> audio_player \<Rightarrow> outcome" where
  "loop16 [] sched self = Returned self"
| "loop16 (position # rest) sched self =
     (let self0 = run_commands (before_check sched) self
      in if fstop self0 then Returned self0
         else (case chunk16 position (before_volume sched) self0 of
                 Raised e s \<Rightarrow> Raised e s
               | Returned s \<Rightarrow> loop16 rest (tl sched) s))"

text \<open>
  \<open>_play8\<close> and \<open>_play16\<close>.  The period is only handed to the delay; what the streams
  keep of its computation is that \<open>1 / self.framerate\<close> raises for a frame rate of 0.  Its
  value is \<open>period8\<close> and \<open>period16\<close> below.
\<close>

definition play8 :: "schedule \<Rightarrow> audio_player \<Rightarrow> outcome" where
  "play8 sched self =
     (if framerate self = 0 then Raised ZeroDivisionError self
      else if buffersize self = 0 then Raised ValueError self
      else loop8 (py_range (buffersize self) (total_frames self) (buffersize self)) sched self)"

definition play16 :: "schedule \<Rightarrow> audio_player \<Rightarrow> outcome" where
  "play16 sched self =
     (if framerate self = 0 then Raised ZeroDivisionError self
      else if buffersize self = 0 then Raised ValueError self
      else loop16 (py_range (buffersize self) (total_frames self) (buffersize self)) sched self)"

text \<open>
  \<open>play\<close>.  Without a thread the stream runs inside the call and no controller call can
  fall into it; with a thread the schedule says what the controller does meanwhile, and the
  outcome shown is that of the stream.
\<close>

definition play :: "schedule \<Rightarrow> audio_player \<Rightarrow> outcome" where
  "play sched self =
     (if \<not> ready self then Returned self
      else let self1 = self\<lparr>fstop := False\<rparr>
           in if loop self1
              then (case audiofile self1 of
                      None \<Rightarrow> Raised AttributeError self1
                    | Some w \<Rightarrow>
                        (case readframes (total_frames self1) w of
                           (data, w1) \<Rightarrow>
                             let self2 = self1\<lparr>framedata := data, audiofile := Some w1\<rparr>
                             in (case dac self2 of
                                   None \<Rightarrow> Raised AttributeError self2
                                 | Some d \<Rightarrow>
                                     Returned (self2\<lparr>hw_trace := hw_trace self2
                                        @ [DacWriteTimed (framedata self2) (framerate self2)]\<rparr>))))
              else if adatawidth self1 = 8
                then (if threading self1 then play8 sched self1 else play8 [] self1)
                else (if threading self1 then play16 sched self1 else play16 [] self1))"

subsection \<open>The sample period\<close>

text \<open>
  The first statement of \<open>_play16\<close> is
  \<open>self.period = int((1 / self.framerate * 1000000) * 0.95)\<close>, that of \<open>_play8\<close> the same
  with \<open>0.90\<close>.  The operands are floats: \<open>1 / self.framerate\<close> is the true division of two
  integers, taken as floats, and the products take the integer \<open>1000000\<close> and the literal
  as floats.  A float is a rational whose significand has \<open>p\<close> bits, and every conversion
  and every operation gives the exact result rounded to the nearest float, a tie to the
  even significand, as IEEE 754 prescribes.  The precision is a parameter: 53 for the
  doubles of CPython and of MicroPython built with double precision, 24 for MicroPython
  built with single precision.  Exponents are unbounded here: the values of this
  computation lie between \<open>1 / framerate\<close> and \<open>1000000\<close>, far from the overflow and
  underflow thresholds of both formats.

  \<open>rne\<close> rounds to the nearest integer, a tie to the even one; \<open>expo x\<close> is the exponent
  of a positive \<open>x\<close>, the \<open>e\<close> with \<open>2 ^ e \<le> x < 2 ^ (e + 1)\<close>; \<open>fl p x\<close> is the float of
  precision \<open>p\<close> nearest to \<open>x\<close>; \<open>py_int\<close> is \<open>int\<close> on a float, which truncates towards
  zero.
\<close>

definition rne :: "rat \<Rightarrow> int" where
  "rne y = (let f = \<lfloor>y\<rfloor>
            in if y - of_int f < 1 / 2 then f
               else if 1 / 2 < y - of_int f then f + 1
               else if even f then f else f + 1)"

definition expo :: "rat \<Rightarrow> int" where
  "expo x = (if 1 \<le> x then bitlen \<lfloor>x\<rfloor> - 1 else - bitlen (\<lceil>1 / x\<rceil> - 1))"

definition fl :: "nat \<Rightarrow> rat \<Rightarrow> rat" where
  "fl p x =
     (if x = 0 then 0
      else let k = int p - 1 - expo \<bar>x\<bar>
           in sgn x * of_int (rne (\<bar>x\<bar> * 2 powi k)) / 2 powi k)"






subsection \<open>What the specification says a stream writes\<close>


text \<open>
  The volume indices the stream takes in its first \<open>n\<close> iterations, up to the first
  iteration that finds the stop flag set.
\<close>

fun snapshots :: "nat \<Rightarrow> schedule \<Rightarrow> audio_player \<Rightarrow> int list" where
  "snapshots 0 sched self = []"
| "snapshots (Suc n) sched self =
     (let self0 = run_commands (before_check sched) self
      in if fstop self0 then []
         else let self1 = run_commands (before_volume sched) self0
              in volume self1 # snapshots n (tl sched) self1)"

text \<open>
  Section 4.4, step 2: the divisor is the table entry of the volume level, scaled by 128
  (pulse) or 16 (converter) on the 16-bit path; the value written is the centre offset (128
  for pulse, 2048 for the converter, none on the 8-bit path) plus the sample divided by the
  divisor.
\<close>

definition spec_event8 :: "bool \<Rightarrow> int list \<Rightarrow> int \<Rightarrow> int \<Rightarrow> hw_event" where
  "spec_event8 pulse table v s =
     (if pulse then PulseWidth (s div table ! nat v) else DacWrite (s div table ! nat v))"

definition spec_event16 :: "bool \<Rightarrow> int list \<Rightarrow> int \<Rightarrow> int \<Rightarrow> hw_event" where
  "spec_event16 pulse table v s =
     (if pulse then PulseWidth (128 + s div (table ! nat v * 128))
      else DacWrite (2048 + s div (table ! nat v * 16)))"

text \<open>
  The trace of a stream that plays one chunk of \<open>B\<close> samples per volume index of \<open>vs\<close>,
  from the front of \<open>samples\<close>.
\<close>

fun spec_output :: "(int \<Rightarrow> int \<Rightarrow> hw_event) \<Rightarrow> nat \<Rightarrow> int list \<Rightarrow> int list \<Rightarrow> hw_event list" where
  "spec_output ev B samples [] = []"
| "spec_output ev B samples (v # vs) =
     map (ev v) (take B samples) @ spec_output ev B (drop B samples) vs"

subsection \<open>Notions used in the statements\<close>

text \<open>The attributes that neither a stream nor a volume or stop call assigns.\<close>

definition config ::
  "audio_player \<Rightarrow> string \<times> bool \<times> bool \<times> dac_dev option \<times> pwm_dev option \<times> timer_dev option
     \<times> nat \<times> nat \<times> bool \<times> bool \<times> int list \<times> nat \<times> nat" where
  "config self = (filename self, pwm_mode self, loop self, dac self, pwm_out self, timer self,
     adatawidth self, buffersize self, ready self, threading self, volumes self,
     total_frames self, framerate self)"

text \<open>
  A non-loop player as \<open>begin\<close> leaves it, possibly after volume calls: the file \<open>w\<close> of
  \<open>k\<close> bytes per frame is open with the cursor at frame 0, the frame count and the frame
  rate are those of the file, and one output is configured.
\<close>

definition stream_ready :: "nat \<Rightarrow> wave_read \<Rightarrow> audio_player \<Rightarrow> bool" where
  "stream_ready k w self \<longleftrightarrow>
     audiofile self = Some w \<and> sampwidth w = k \<and> soundpos w = 0
     \<and> total_frames self = getnframes w
     \<and> 0 < framerate self \<and> 0 < buffersize self \<and> ready self \<and> \<not> loop self
     \<and> volumes self = [49, 31, 21, 15, 11, 9, 7, 6, 5, 4, 3, 2, 1]
     \<and> 0 \<le> volume self \<and> volume self \<le> 12
     \<and> (pwm_out self \<noteq> None \<or> dac self \<noteq> None)"

text \<open>The reads of the sample source so far.\<close>

definition reads_of :: "audio_player \<Rightarrow> (nat \<times> nat) list" where
  "reads_of self = (case audiofile self of None \<Rightarrow> [] | Some w \<Rightarrow> read_log w)"

text \<open>
  The positions the outer loop of a stream ranges over, and the volume levels the stream
  takes: one per chunk it plays.
\<close>

definition positions :: "audio_player \<Rightarrow> nat list" where
  "positions self = py_range (buffersize self) (total_frames self) (buffersize self)"

definition levels :: "schedule \<Rightarrow> audio_player \<Rightarrow> int list" where
  "levels sched self = snapshots (length (positions self)) sched self"

subsection \<open>Sessions for the examples\<close>

text \<open>
  Files for the examples: \<open>wav8 n m\<close> has \<open>n + m\<close> frames of 8 bits, the last \<open>m\<close>
  distinct from the first \<open>n\<close>; \<open>wav16 n\<close> has \<open>n\<close> frames of 16 bits, each the sample
  -515.  \<open>session w pwm thread\<close> is the non-loop player of the usage example at the end of
  the source after \<open>begin\<close>, on a file system that holds \<open>w\<close> under the example's name;
  \<open>started\<close> is that player as \<open>play\<close> hands it to the stream, the stop flag cleared.
\<close>

definition wav8 :: "nat \<Rightarrow> nat \<Rightarrow> wave_read" where
  "wav8 n m = \<lparr>sampwidth = 1, framerate_hdr = 8000,
     frames = replicate n 200 @ replicate m 98, soundpos = 0, read_log = []\<rparr>"

definition wav16 :: "nat \<Rightarrow> wave_read" where
  "wav16 n = \<lparr>sampwidth = 2, framerate_hdr = 8000,
     frames = replicate (2 * n) 253, soundpos = 0, read_log = []\<rparr>"

definition session :: "wave_read \<Rightarrow> bool \<Rightarrow> bool \<Rightarrow> audio_player" where
  "session w pwm thread =
     state_of (begin' [''/flash/SND/idiota8.wav'' \<mapsto> w] 84000000
       (init ''/flash/SND/idiota8.wav'' pwm False thread))"

definition started :: "wave_read \<Rightarrow> bool \<Rightarrow> bool \<Rightarrow> audio_player" where
  "started w pwm thread = (session w pwm thread)\<lparr>fstop := False\<rparr>"

section \<open>Properties\<close>

subsection \<open>The volume table\<close>

lemma table_positive:
  "\<forall>i. i < 13 \<longrightarrow> 0 < [49, 31, 21, 15, 11, 9, 7, 6, 5, 4, 3, 2, 1 :: int] ! i"
  using list_all_length [of "\<lambda>x. 0 < x" "[49, 31, 21, 15, 11, 9, 7, 6, 5, 4, 3, 2, 1 :: int]"]
  by simp

lemma table_decreasing:
  "\<forall>i. i \<le> 11 \<longrightarrow> [49, 31, 21, 15, 11, 9, 7, 6, 5, 4, 3, 2, 1 :: int] ! i
       > [49, 31, 21, 15, 11, 9, 7, 6, 5, 4, 3, 2, 1 :: int] ! (i + 1)"
proof (intro allI impI)
  fix i :: nat assume "i \<le> 11"
  have dec: "sorted_wrt (>) [49, 31, 21, 15, 11, 9, 7, 6, 5, 4, 3, 2, 1 :: int]"
    by simp
  from \<open>i \<le> 11\<close> have "i < i + 1" "i + 1 < length [49, 31, 21, 15, 11, 9, 7, 6, 5, 4, 3, 2, 1 :: int]"
    by simp_all
  with dec show "[49, 31, 21, 15, 11, 9, 7, 6, 5, 4, 3, 2, 1 :: int] ! i
       > [49, 31, 21, 15, 11, 9, 7, 6, 5, 4, 3, 2, 1 :: int] ! (i + 1)"
    unfolding sorted_wrt_iff_nth_less by blast
qed

text \<open>
  C7.  The volume table built by the constructor is the literal sequence
  49, 31, 21, 15, 11, 9, 7, 6, 5, 4, 3, 2, 1: thirteen divisors, each positive, each
  strictly greater than its successor, whatever the constructor's arguments.
\<close>

theorem volumes_table:
  "volumes (init fname pwm lp thread) = [49, 31, 21, 15, 11, 9, 7, 6, 5, 4, 3, 2, 1]
   \<and> length (volumes (init fname pwm lp thread)) = 13
   \<and> (\<forall>i. i < 13 \<longrightarrow> 0 < volumes (init fname pwm lp thread) ! i)
   \<and> (\<forall>i. i \<le> 11 \<longrightarrow>
        volumes (init fname pwm lp thread) ! i > volumes (init fname pwm lp thread) ! (i + 1))"
proof -
  have v: "volumes (init fname pwm lp thread) = [49, 31, 21, 15, 11, 9, 7, 6, 5, 4, 3, 2, 1]"
    by (simp add: init_def)
  show ?thesis
    unfolding v using table_positive table_decreasing by simp
qed

theorem volumes_table_witness:
  "(3::nat) < 13 \<and> (3::nat) \<le> 11
   \<and> 0 < volumes (init ''a.wav'' True False False) ! 3
   \<and> volumes (init ''a.wav'' True False False) ! 3
       > volumes (init ''a.wav'' True False False) ! (3 + 1)"
  using volumes_table [of "''a.wav''" True False False] by simp

subsection \<open>Volume controls\<close>

text \<open>
  C8.  \<open>set_volume v\<close> with \<open>v\<close> below 0 or above 12 returns the object exactly as it
  was, and raises nothing; with \<open>v\<close> from 0 to 12 it stores \<open>v\<close> as the volume level and
  changes nothing else.  So \<open>set_volume(13)\<close> after \<open>set_volume(5)\<close> leaves the level at 5.
\<close>

theorem set_volume_guard:
  "(v < 0 \<or> 12 < v \<longrightarrow> set_volume v self = self)
   \<and> (0 \<le> v \<and> v \<le> 12 \<longrightarrow> set_volume v self = self\<lparr>volume := v\<rparr>)
   \<and> volume (set_volume 13 (set_volume 5 self)) = 5"
  by (simp add: set_volume_def)

theorem set_volume_guard_witness:
  "((13::int) < 0 \<or> 12 < (13::int))
   \<and> set_volume 13 (init ''a.wav'' True False False) = init ''a.wav'' True False False
   \<and> (0::int) \<le> 7 \<and> (7::int) \<le> 12
   \<and> set_volume 7 (init ''a.wav'' True False False) = (init ''a.wav'' True False False)\<lparr>volume := 7\<rparr>"
  using set_volume_guard [of 13 "init ''a.wav'' True False False"]
    set_volume_guard [of 7 "init ''a.wav'' True False False"]
  by simp

lemma volume_up_iter:
  "volume self \<le> 12 \<Longrightarrow> volume ((volume_up ^^ n) self) = min 12 (volume self + int n)"
  by (induction n) (auto simp: volume_up_def)

lemma volume_down_iter:
  "0 \<le> volume self \<Longrightarrow> volume ((volume_down ^^ n) self) = max 0 (volume self - int n)"
  by (induction n) (auto simp: volume_down_def)

text \<open>
  C9.  From a level between 0 and 12, \<open>volume_up\<close> adds one unless the level is 12 and
  \<open>volume_down\<close> subtracts one unless the level is 0; after any number of either call the
  level is still between 0 and 12; twenty \<open>volume_up\<close> from 0 end at 12 and twenty
  \<open>volume_down\<close> from 12 end at 0.
\<close>

theorem volume_steps_saturate:
  "0 \<le> volume self \<and> volume self \<le> 12 \<longrightarrow>
     volume (volume_up self) = (if volume self = 12 then 12 else volume self + 1)
   \<and> volume (volume_down self) = (if volume self = 0 then 0 else volume self - 1)
   \<and> 0 \<le> volume ((volume_up ^^ n) self) \<and> volume ((volume_up ^^ n) self) \<le> 12
   \<and> 0 \<le> volume ((volume_down ^^ n) self) \<and> volume ((volume_down ^^ n) self) \<le> 12
   \<and> (volume self = 0 \<longrightarrow> volume ((volume_up ^^ 20) self) = 12)
   \<and> (volume self = 12 \<longrightarrow> volume ((volume_down ^^ 20) self) = 0)"
  by (simp add: volume_up_iter volume_down_iter) (simp add: volume_up_def volume_down_def)

theorem volume_steps_saturate_witness:
  "0 \<le> volume (set_volume 0 (init ''a.wav'' True False False))
   \<and> volume (set_volume 0 (init ''a.wav'' True False False)) \<le> 12
   \<and> volume (set_volume 0 (init ''a.wav'' True False False)) = 0
   \<and> volume ((volume_up ^^ 20) (set_volume 0 (init ''a.wav'' True False False))) = 12
   \<and> 0 \<le> volume (set_volume 12 (init ''a.wav'' True False False))
   \<and> volume (set_volume 12 (init ''a.wav'' True False False)) \<le> 12
   \<and> volume (set_volume 12 (init ''a.wav'' True False False)) = 12
   \<and> volume ((volume_down ^^ 20) (set_volume 12 (init ''a.wav'' True False False))) = 0"
  using volume_steps_saturate [of "set_volume 0 (init ''a.wav'' True False False)" 20]
    volume_steps_saturate [of "set_volume 12 (init ''a.wav'' True False False)" 20]
  by (simp add: set_volume_def init_def)

subsection \<open>Loop mode and the converter\<close>

lemma begin'_opened:
  "fs fname = Some w \<Longrightarrow>
   begin' fs pclk1 (init fname pwm lp thread) =
     Returned ((init fname pwm lp thread)
       \<lparr> dac := (if pwm then None else Some (Dac DAC_PORT (if sampwidth w > 1 then 12 else 8))),
         pwm_out := (if pwm then Some (PwmChannel CHANNEL PIN 50) else None),
         timer := (if pwm then Some (Timer TIMER ((pclk1 * 2) div 255 div FREQ) 255) else None),
         audiofile := Some (w\<lparr>soundpos := 0, read_log := []\<rparr>),
         adatawidth := (if sampwidth w > 1 then 12 else 8),
         ready := True,
         total_frames := getnframes w,
         framerate := framerate_hdr w \<rparr>)"
  by (simp add: begin'_def wave_open_def init_def getsampwidth_def getframerate_def
      getnframes_def Let_def)

text \<open>
  C10.  For a player built with \<open>loop = True\<close> on a file that opens: with \<open>pwm = True\<close>,
  \<open>begin\<close> returns with the pulse output set and the converter left at \<open>None\<close>, and both
  \<open>play\<close> and \<open>stop\<close> then raise \<open>AttributeError\<close> on the missing converter; with
  \<open>pwm = False\<close> the converter is set and neither \<open>play\<close> nor \<open>stop\<close> raises.
\<close>

theorem loop_needs_converter:
  "fs fname = Some w \<longrightarrow>
     (pwm \<longrightarrow>
        raised (begin' fs pclk1 (init fname pwm True thread)) = None
      \<and> pwm_out (state_of (begin' fs pclk1 (init fname pwm True thread))) \<noteq> None
      \<and> dac (state_of (begin' fs pclk1 (init fname pwm True thread))) = None
      \<and> raised (play sched (state_of (begin' fs pclk1 (init fname pwm True thread))))
          = Some AttributeError
      \<and> raised (stop (state_of (begin' fs pclk1 (init fname pwm True thread))))
          = Some AttributeError)
   \<and> (\<not> pwm \<longrightarrow>
        raised (begin' fs pclk1 (init fname pwm True thread)) = None
      \<and> dac (state_of (begin' fs pclk1 (init fname pwm True thread))) \<noteq> None
      \<and> raised (play sched (state_of (begin' fs pclk1 (init fname pwm True thread)))) = None
      \<and> raised (stop (state_of (begin' fs pclk1 (init fname pwm True thread)))) = None)"
  by (simp add: begin'_opened)
     (simp add: init_def play_def stop_def dac_write_def readframes_def Let_def)

theorem loop_needs_converter_witness:
  "[''a.wav'' \<mapsto> \<lparr>sampwidth = 1, framerate_hdr = 8000, frames = [1, 2, 3], soundpos = 0,
          read_log = []\<rparr>]
       ''a.wav''
     = Some \<lparr>sampwidth = 1, framerate_hdr = 8000, frames = [1, 2, 3], soundpos = 0,
          read_log = []\<rparr>
   \<and> raised (play [] (state_of (begin'
        [''a.wav'' \<mapsto> \<lparr>sampwidth = 1, framerate_hdr = 8000, frames = [1, 2, 3], soundpos = 0,
          read_log = []\<rparr>]
        84000000 (init ''a.wav'' True True False)))) = Some AttributeError
   \<and> raised (play [] (state_of (begin'
        [''a.wav'' \<mapsto> \<lparr>sampwidth = 1, framerate_hdr = 8000, frames = [1, 2, 3], soundpos = 0,
          read_log = []\<rparr>]
        84000000 (init ''a.wav'' False True False)))) = None"
  using loop_needs_converter [of
      "[''a.wav'' \<mapsto> \<lparr>sampwidth = 1, framerate_hdr = 8000, frames = [1, 2, 3], soundpos = 0,
          read_log = []\<rparr>]"
      "''a.wav''" "\<lparr>sampwidth = 1, framerate_hdr = 8000, frames = [1, 2, 3], soundpos = 0,
          read_log = []\<rparr>"
      True 84000000 False "[]"]
    loop_needs_converter [of
      "[''a.wav'' \<mapsto> \<lparr>sampwidth = 1, framerate_hdr = 8000, frames = [1, 2, 3], soundpos = 0,
          read_log = []\<rparr>]"
      "''a.wav''" "\<lparr>sampwidth = 1, framerate_hdr = 8000, frames = [1, 2, 3], soundpos = 0,
          read_log = []\<rparr>"
      False 84000000 False "[]"]
  by simp

subsection \<open>The controller's calls\<close>

text \<open>
  Outside loop mode a call of the controller changes \<open>volume\<close> and \<open>fstop\<close> and nothing
  else, keeps the volume level between 0 and 12, and depends on nothing but \<open>volume\<close>,
  \<open>fstop\<close> and \<open>ready\<close>.
\<close>

lemma stop_no_loop:
  "\<not> loop self \<Longrightarrow> state_of (stop self) = (if ready self then self\<lparr>fstop := True\<rparr> else self)"
  by (simp add: stop_def Let_def)

lemma run_command_frame:
  "\<not> loop self \<Longrightarrow>
   run_command c self =
     self\<lparr>volume := volume (run_command c self), fstop := fstop (run_command c self)\<rparr>"
  by (cases c) (simp_all add: volume_up_def volume_down_def set_volume_def stop_no_loop)

lemma run_command_loop: "loop (run_command c self) = loop self"
  by (cases c)
     (simp_all add: volume_up_def volume_down_def set_volume_def stop_def dac_write_def Let_def
        split: option.splits)

lemma run_commands_frame:
  "\<not> loop self \<Longrightarrow>
   run_commands cs self =
     self\<lparr>volume := volume (run_commands cs self), fstop := fstop (run_commands cs self)\<rparr>"
proof (induction cs arbitrary: self)
  case Nil
  show ?case by simp
next
  case (Cons c cs)
  let ?s = "run_command c self"
  have nl: "\<not> loop ?s" using Cons.prems by (simp add: run_command_loop)
  have "run_commands cs ?s =
      ?s\<lparr>volume := volume (run_commands cs ?s), fstop := fstop (run_commands cs ?s)\<rparr>"
    by (rule Cons.IH [OF nl])
  also have "\<dots> = (self\<lparr>volume := volume ?s, fstop := fstop ?s\<rparr>)
      \<lparr>volume := volume (run_commands cs ?s), fstop := fstop (run_commands cs ?s)\<rparr>"
    using run_command_frame [OF Cons.prems, of c] by simp
  finally show ?case by simp
qed

lemma run_command_range:
  "0 \<le> volume self \<and> volume self \<le> 12 \<Longrightarrow>
   0 \<le> volume (run_command c self) \<and> volume (run_command c self) \<le> 12"
  by (cases c)
     (auto simp: volume_up_def volume_down_def set_volume_def stop_def dac_write_def Let_def
        split: option.splits)

lemma run_commands_range:
  "0 \<le> volume self \<and> volume self \<le> 12 \<Longrightarrow>
   0 \<le> volume (run_commands cs self) \<and> volume (run_commands cs self) \<le> 12"
proof (induction cs arbitrary: self)
  case Nil
  then show ?case by simp
next
  case (Cons c cs)
  from Cons.IH [OF run_command_range [OF Cons.prems, of c]] show ?case by simp
qed

lemma run_command_ctrl:
  assumes "volume s = volume t" "fstop s = fstop t" "ready s = ready t" "\<not> loop s" "\<not> loop t"
  shows "volume (run_command c s) = volume (run_command c t)
       \<and> fstop (run_command c s) = fstop (run_command c t)
       \<and> ready (run_command c s) = ready (run_command c t)
       \<and> \<not> loop (run_command c s) \<and> \<not> loop (run_command c t)"
  using assms
  by (cases c) (simp_all add: volume_up_def volume_down_def set_volume_def stop_no_loop)

lemma run_commands_ctrl:
  assumes "volume s = volume t" "fstop s = fstop t" "ready s = ready t" "\<not> loop s" "\<not> loop t"
  shows "volume (run_commands cs s) = volume (run_commands cs t)
       \<and> fstop (run_commands cs s) = fstop (run_commands cs t)
       \<and> ready (run_commands cs s) = ready (run_commands cs t)
       \<and> \<not> loop (run_commands cs s) \<and> \<not> loop (run_commands cs t)"
  using assms
proof (induction cs arbitrary: s t)
  case Nil
  then show ?case by simp
next
  case (Cons c cs)
  have h: "volume (run_command c s) = volume (run_command c t)
       \<and> fstop (run_command c s) = fstop (run_command c t)
       \<and> ready (run_command c s) = ready (run_command c t)
       \<and> \<not> loop (run_command c s) \<and> \<not> loop (run_command c t)"
    by (rule run_command_ctrl) (use Cons.prems in simp_all)
  show ?case using Cons.IH [of "run_command c s" "run_command c t"] h by simp
qed

lemma snapshots_ctrl:
  assumes "volume s = volume t" "fstop s = fstop t" "ready s = ready t" "\<not> loop s" "\<not> loop t"
  shows "snapshots n sched s = snapshots n sched t"
  using assms
proof (induction n arbitrary: s t sched)
  case 0
  show ?case by simp
next
  case (Suc n)
  let ?s0 = "run_commands (before_check sched) s"
  let ?t0 = "run_commands (before_check sched) t"
  have h0: "volume ?s0 = volume ?t0 \<and> fstop ?s0 = fstop ?t0 \<and> ready ?s0 = ready ?t0
       \<and> \<not> loop ?s0 \<and> \<not> loop ?t0"
    by (rule run_commands_ctrl) (use Suc.prems in simp_all)
  let ?s1 = "run_commands (before_volume sched) ?s0"
  let ?t1 = "run_commands (before_volume sched) ?t0"
  have h1: "volume ?s1 = volume ?t1 \<and> fstop ?s1 = fstop ?t1 \<and> ready ?s1 = ready ?t1
       \<and> \<not> loop ?s1 \<and> \<not> loop ?t1"
    by (rule run_commands_ctrl) (use h0 in simp_all)
  have "snapshots n (tl sched) ?s1 = snapshots n (tl sched) ?t1"
    by (rule Suc.IH) (use h1 in simp_all)
  then show ?case using h0 h1 by (simp add: Let_def)
qed

lemma run_commands_static:
  assumes "\<not> loop self"
  shows "config (run_commands cs self) = config self"
    and "audiofile (run_commands cs self) = audiofile self"
    and "hw_trace (run_commands cs self) = hw_trace self"
proof -
  have e: "run_commands cs self =
      self\<lparr>volume := volume (run_commands cs self), fstop := fstop (run_commands cs self)\<rparr>"
    by (rule run_commands_frame [OF assms])
  show "config (run_commands cs self) = config self"
    using arg_cong [OF e, of config] by (simp add: config_def)
  show "audiofile (run_commands cs self) = audiofile self"
    using arg_cong [OF e, of audiofile] by simp
  show "hw_trace (run_commands cs self) = hw_trace self"
    using arg_cong [OF e, of hw_trace] by simp
qed

subsection \<open>The inner loops\<close>

text \<open>
  With a divisor other than 0 and an output to write to, the inner loop over \<open>n\<close> indices
  writes the first \<open>n\<close> items of the buffer, each converted, and returns; on a buffer
  shorter than \<open>n\<close> it writes the whole buffer and then raises \<open>IndexError\<close>.
\<close>

lemma map_nth_upt: "n \<le> length xs \<Longrightarrow> map (\<lambda>i. f (xs ! i)) [0..<n] = map f (take n xs)"
  by (rule nth_equalityI) simp_all

lemma write8_run:
  assumes "\<forall>i \<in> set js. i < length buf" "vol \<noteq> 0" "pwm_out self \<noteq> None \<or> dac self \<noteq> None"
  shows "write8 js buf vol self =
     Returned (self\<lparr>hw_trace := hw_trace self
        @ map (\<lambda>i. if pwm_out self \<noteq> None then PulseWidth (buf ! i div vol)
                    else DacWrite (buf ! i div vol)) js\<rparr>)"
  using assms
proof (induction js arbitrary: self)
  case Nil
  show ?case by simp
next
  case (Cons i js)
  show ?case
  proof (cases "pwm_out self")
    case (Some ch)
    let ?s = "pulse_width (buf ! i div vol) self"
    have "write8 js buf vol ?s =
        Returned (?s\<lparr>hw_trace := hw_trace ?s
          @ map (\<lambda>j. if pwm_out ?s \<noteq> None then PulseWidth (buf ! j div vol)
                      else DacWrite (buf ! j div vol)) js\<rparr>)"
      by (rule Cons.IH) (use Cons.prems Some in \<open>simp_all add: pulse_width_def\<close>)
    then show ?thesis using Cons.prems Some by (simp add: pulse_width_def)
  next
    case None
    then obtain d where d: "dac self = Some d" using Cons.prems by auto
    let ?s = "self\<lparr>hw_trace := hw_trace self @ [DacWrite (buf ! i div vol)]\<rparr>"
    have "write8 js buf vol ?s =
        Returned (?s\<lparr>hw_trace := hw_trace ?s
          @ map (\<lambda>j. if pwm_out ?s \<noteq> None then PulseWidth (buf ! j div vol)
                      else DacWrite (buf ! j div vol)) js\<rparr>)"
      by (rule Cons.IH) (use Cons.prems None d in simp_all)
    then show ?thesis using Cons.prems None d by (simp add: dac_write_def)
  qed
qed

lemma write8_chunk:
  assumes "n \<le> length buf" "vol \<noteq> 0" "pwm_out self \<noteq> None \<or> dac self \<noteq> None"
  shows "write8 [0..<n] buf vol self =
     Returned (self\<lparr>hw_trace := hw_trace self
        @ map (\<lambda>s. if pwm_out self \<noteq> None then PulseWidth (s div vol)
                    else DacWrite (s div vol)) (take n buf)\<rparr>)"
proof -
  have "\<forall>i \<in> set [0..<n]. i < length buf" using assms(1) by simp
  from write8_run [OF this assms(2,3)] show ?thesis
    using map_nth_upt [OF assms(1),
        of "\<lambda>s. if pwm_out self \<noteq> None then PulseWidth (s div vol) else DacWrite (s div vol)"]
    by simp
qed

lemma write16_run:
  assumes "\<forall>i \<in> set js. i < length buf" "vol \<noteq> 0" "pwm_out self \<noteq> None \<or> dac self \<noteq> None"
  shows "write16 js buf vol self =
     Returned (self\<lparr>hw_trace := hw_trace self
        @ map (\<lambda>i. if pwm_out self \<noteq> None then PulseWidth (128 + buf ! i div vol)
                    else DacWrite (2048 + buf ! i div vol)) js\<rparr>)"
  using assms
proof (induction js arbitrary: self)
  case Nil
  show ?case by simp
next
  case (Cons i js)
  show ?case
  proof (cases "pwm_out self")
    case (Some ch)
    let ?s = "pulse_width (128 + buf ! i div vol) self"
    have "write16 js buf vol ?s =
        Returned (?s\<lparr>hw_trace := hw_trace ?s
          @ map (\<lambda>j. if pwm_out ?s \<noteq> None then PulseWidth (128 + buf ! j div vol)
                      else DacWrite (2048 + buf ! j div vol)) js\<rparr>)"
      by (rule Cons.IH) (use Cons.prems Some in \<open>simp_all add: pulse_width_def\<close>)
    then show ?thesis using Cons.prems Some by (simp add: pulse_width_def)
  next
    case None
    then obtain d where d: "dac self = Some d" using Cons.prems by auto
    let ?s = "self\<lparr>hw_trace := hw_trace self @ [DacWrite (2048 + buf ! i div vol)]\<rparr>"
    have "write16 js buf vol ?s =
        Returned (?s\<lparr>hw_trace := hw_trace ?s
          @ map (\<lambda>j. if pwm_out ?s \<noteq> None then PulseWidth (128 + buf ! j div vol)
                      else DacWrite (2048 + buf ! j div vol)) js\<rparr>)"
      by (rule Cons.IH) (use Cons.prems None d in simp_all)
    then show ?thesis using Cons.prems None d by (simp add: dac_write_def)
  qed
qed

lemma write16_chunk:
  assumes "n \<le> length buf" "vol \<noteq> 0" "pwm_out self \<noteq> None \<or> dac self \<noteq> None"
  shows "write16 [0..<n] buf vol self =
     Returned (self\<lparr>hw_trace := hw_trace self
        @ map (\<lambda>s. if pwm_out self \<noteq> None then PulseWidth (128 + s div vol)
                    else DacWrite (2048 + s div vol)) (take n buf)\<rparr>)"
proof -
  have "\<forall>i \<in> set [0..<n]. i < length buf" using assms(1) by simp
  from write16_run [OF this assms(2,3)] show ?thesis
    using map_nth_upt [OF assms(1),
        of "\<lambda>s. if pwm_out self \<noteq> None then PulseWidth (128 + s div vol)
                else DacWrite (2048 + s div vol)"]
    by simp
qed

lemma write8_append:
  "write8 (xs @ ys) buf vol self =
     (case write8 xs buf vol self of
        Returned s \<Rightarrow> write8 ys buf vol s
      | Raised e s \<Rightarrow> Raised e s)"
  by (induction xs arbitrary: self)
     (simp_all add: Let_def split: option.splits outcome.splits)

lemma write16_append:
  "write16 (xs @ ys) buf vol self =
     (case write16 xs buf vol self of
        Returned s \<Rightarrow> write16 ys buf vol s
      | Raised e s \<Rightarrow> Raised e s)"
  by (induction xs arbitrary: self)
     (simp_all add: Let_def split: option.splits outcome.splits)

lemma write8_short:
  assumes "length buf < n" "vol \<noteq> 0" "pwm_out self \<noteq> None \<or> dac self \<noteq> None"
  shows "write8 [0..<n] buf vol self =
     Raised IndexError (self\<lparr>hw_trace := hw_trace self
        @ map (\<lambda>s. if pwm_out self \<noteq> None then PulseWidth (s div vol)
                    else DacWrite (s div vol)) (take n buf)\<rparr>)"
proof -
  have "[0..<length buf + (n - length buf)]
      = [0..<length buf] @ [length buf..<length buf + (n - length buf)]"
    by (rule upt_add_eq_append) simp
  moreover have "[length buf..<length buf + (n - length buf)]
      = length buf # [Suc (length buf)..<n]"
    using assms(1) by (simp add: upt_conv_Cons)
  ultimately have split: "[0..<n] = [0..<length buf] @ (length buf # [Suc (length buf)..<n])"
    using assms(1) by simp
  have first: "write8 [0..<length buf] buf vol self =
     Returned (self\<lparr>hw_trace := hw_trace self
        @ map (\<lambda>s. if pwm_out self \<noteq> None then PulseWidth (s div vol)
                    else DacWrite (s div vol)) (take (length buf) buf)\<rparr>)"
    by (rule write8_chunk) (use assms in simp_all)
  show ?thesis
    using assms(1) by (subst split) (simp add: write8_append first)
qed

lemma write16_short:
  assumes "length buf < n" "vol \<noteq> 0" "pwm_out self \<noteq> None \<or> dac self \<noteq> None"
  shows "write16 [0..<n] buf vol self =
     Raised IndexError (self\<lparr>hw_trace := hw_trace self
        @ map (\<lambda>s. if pwm_out self \<noteq> None then PulseWidth (128 + s div vol)
                    else DacWrite (2048 + s div vol)) (take n buf)\<rparr>)"
proof -
  have "[0..<length buf + (n - length buf)]
      = [0..<length buf] @ [length buf..<length buf + (n - length buf)]"
    by (rule upt_add_eq_append) simp
  moreover have "[length buf..<length buf + (n - length buf)]
      = length buf # [Suc (length buf)..<n]"
    using assms(1) by (simp add: upt_conv_Cons)
  ultimately have split: "[0..<n] = [0..<length buf] @ (length buf # [Suc (length buf)..<n])"
    using assms(1) by simp
  have first: "write16 [0..<length buf] buf vol self =
     Returned (self\<lparr>hw_trace := hw_trace self
        @ map (\<lambda>s. if pwm_out self \<noteq> None then PulseWidth (128 + s div vol)
                    else DacWrite (2048 + s div vol)) (take (length buf) buf)\<rparr>)"
    by (rule write16_chunk) (use assms in simp_all)
  show ?thesis
    using assms(1) by (subst split) (simp add: write16_append first split: option.splits)
qed

subsection \<open>One chunk\<close>

lemma table_index:
  assumes "0 \<le> v" "v \<le> 12"
  shows "py_index [49, 31, 21, 15, 11, 9, 7, 6, 5, 4, 3, 2, 1 :: int] v
       = Some ([49, 31, 21, 15, 11, 9, 7, 6, 5, 4, 3, 2, 1] ! nat v)"
    and "[49, 31, 21, 15, 11, 9, 7, 6, 5, 4, 3, 2, 1 :: int] ! nat v \<noteq> 0"
proof -
  show "py_index [49, 31, 21, 15, 11, 9, 7, 6, 5, 4, 3, 2, 1 :: int] v
       = Some ([49, 31, 21, 15, 11, 9, 7, 6, 5, 4, 3, 2, 1] ! nat v)"
    using assms by (simp add: py_index_def)
  have "nat v < 13" using assms by simp
  with table_positive show "[49, 31, 21, 15, 11, 9, 7, 6, 5, 4, 3, 2, 1 :: int] ! nat v \<noteq> 0"
    by fastforce
qed

lemma array_h_length: "length (array_h bs) = length bs div 2"
  by (induction bs rule: array_h.induct) (simp_all add: Let_def)

lemma array_h_take: "array_h (take (2 * n) bs) = take n (array_h bs)"
proof (induction n arbitrary: bs)
  case 0
  show ?case by simp
next
  case (Suc n)
  show ?case
  proof (cases bs rule: array_h.cases)
    case (1 lo hi rest)
    then show ?thesis using Suc.IH [of rest] by (simp add: Let_def)
  qed simp_all
qed

lemma array_h_drop: "array_h (drop (2 * n) bs) = drop n (array_h bs)"
proof (induction n arbitrary: bs)
  case 0
  show ?case by simp
next
  case (Suc n)
  show ?case
  proof (cases bs rule: array_h.cases)
    case (1 lo hi rest)
    then show ?thesis using Suc.IH [of rest] by (simp add: Let_def)
  qed simp_all
qed

lemma spec_event8_fun:
  "spec_event8 b t v =
     (\<lambda>s. if b then PulseWidth (s div t ! nat v) else DacWrite (s div t ! nat v))"
  by (rule ext) (simp add: spec_event8_def)

lemma spec_event16_fun:
  "spec_event16 b t v =
     (\<lambda>s. if b then PulseWidth (128 + s div (t ! nat v * 128))
          else DacWrite (2048 + s div (t ! nat v * 16)))"
  by (rule ext) (simp add: spec_event16_def)

lemma chunk8_any:
  fixes self :: audio_player and w :: wave_read and p :: nat and mid :: "command list"
  defines "data \<equiv> take (buffersize self * sampwidth w) (drop (soundpos w * sampwidth w) (frames w))"
  defines "after \<equiv> self
       \<lparr> framedata := data,
         audiofile := Some (w\<lparr>soundpos := p,
            read_log := read_log w @ [(soundpos w, length data div sampwidth w)]\<rparr>),
         volume := volume (run_commands mid self),
         fstop := fstop (run_commands mid self),
         hw_trace := hw_trace self
           @ map (spec_event8 (pwm_out self \<noteq> None) (volumes self)
                    (volume (run_commands mid self)))
               (take (buffersize self) (array_B data)) \<rparr>"
  assumes af: "audiofile self = Some w"
    and pos: "p \<le> getnframes w"
    and nl: "\<not> loop self"
    and tab: "volumes self = [49, 31, 21, 15, 11, 9, 7, 6, 5, 4, 3, 2, 1]"
    and vr: "0 \<le> volume self \<and> volume self \<le> 12"
    and be: "pwm_out self \<noteq> None \<or> dac self \<noteq> None"
  shows "chunk8 p mid self =
     (if buffersize self \<le> length (array_B data) then Returned after
      else Raised IndexError after)"
proof -
  let ?B = "buffersize self"
  let ?w1 = "w\<lparr>soundpos := soundpos w + length data div sampwidth w,
      read_log := read_log w @ [(soundpos w, length data div sampwidth w)]\<rparr>"
  let ?w2 = "w\<lparr>soundpos := p,
      read_log := read_log w @ [(soundpos w, length data div sampwidth w)]\<rparr>"
  let ?s1 = "self\<lparr>framedata := data, audiofile := Some ?w2\<rparr>"
  let ?V = "volume (run_commands mid self)"
  let ?F = "fstop (run_commands mid self)"
  let ?s2 = "?s1\<lparr>volume := ?V, fstop := ?F\<rparr>"
  have rd: "readframes ?B w = (data, ?w1)"
    by (simp add: readframes_def Let_def data_def)
  have sp: "setpos p ?w1 = Inr ?w2"
    using pos by (simp add: setpos_def getnframes_def)
  have ctrl: "volume (run_commands mid ?s1) = ?V \<and> fstop (run_commands mid ?s1) = ?F"
    using run_commands_ctrl [of ?s1 self mid] nl by simp
  have s2: "run_commands mid ?s1 = ?s2"
    using run_commands_frame [of ?s1 mid] nl ctrl by simp
  have Vr: "0 \<le> ?V \<and> ?V \<le> 12" by (rule run_commands_range [OF vr])
  have pi: "py_index (volumes self) ?V = Some (volumes self ! nat ?V)"
    using table_index(1) [of ?V] Vr tab by simp
  have nz: "volumes self ! nat ?V \<noteq> 0"
    using table_index(2) [of ?V] Vr tab by simp
  have be': "pwm_out ?s2 \<noteq> None \<or> dac ?s2 \<noteq> None"
    using be by simp
  have aft: "?s2\<lparr>hw_trace := hw_trace ?s2
        @ map (\<lambda>s. if pwm_out ?s2 \<noteq> None then PulseWidth (s div (volumes self ! nat ?V))
                    else DacWrite (s div (volumes self ! nat ?V)))
            (take ?B (array_B data))\<rparr> = after"
    by (simp add: after_def spec_event8_fun)
  have wr: "write8 [0..<?B] (array_B data) (volumes self ! nat ?V) ?s2 =
     (if ?B \<le> length (array_B data) then Returned after else Raised IndexError after)"
  proof (cases "?B \<le> length (array_B data)")
    case True
    show ?thesis
      unfolding write8_chunk [OF True nz be'] aft using True by simp
  next
    case False
    then have short: "length (array_B data) < ?B" by simp
    show ?thesis
      unfolding write8_short [OF short nz be'] aft using False by simp
  qed
  have "chunk8 p mid self = write8 [0..<?B] (array_B data) (volumes self ! nat ?V) ?s2"
    by (simp add: chunk8_def af rd sp s2 pi Let_def)
  then show ?thesis unfolding wr .
qed

lemma chunk16_any:
  fixes self :: audio_player and w :: wave_read and p :: nat and mid :: "command list"
  defines "data \<equiv> take (buffersize self * sampwidth w) (drop (soundpos w * sampwidth w) (frames w))"
  defines "after \<equiv> self
       \<lparr> framedata := data,
         audiofile := Some (w\<lparr>soundpos := p,
            read_log := read_log w @ [(soundpos w, length data div sampwidth w)]\<rparr>),
         volume := volume (run_commands mid self),
         fstop := fstop (run_commands mid self),
         hw_trace := hw_trace self
           @ map (spec_event16 (pwm_out self \<noteq> None) (volumes self)
                    (volume (run_commands mid self)))
               (take (buffersize self) (array_h data)) \<rparr>"
  assumes af: "audiofile self = Some w"
    and pos: "p \<le> getnframes w"
    and nl: "\<not> loop self"
    and tab: "volumes self = [49, 31, 21, 15, 11, 9, 7, 6, 5, 4, 3, 2, 1]"
    and vr: "0 \<le> volume self \<and> volume self \<le> 12"
    and be: "pwm_out self \<noteq> None \<or> dac self \<noteq> None"
  shows "chunk16 p mid self =
     (if buffersize self \<le> length (array_h data) then Returned after
      else Raised IndexError after)"
proof -
  let ?B = "buffersize self"
  let ?w1 = "w\<lparr>soundpos := soundpos w + length data div sampwidth w,
      read_log := read_log w @ [(soundpos w, length data div sampwidth w)]\<rparr>"
  let ?w2 = "w\<lparr>soundpos := p,
      read_log := read_log w @ [(soundpos w, length data div sampwidth w)]\<rparr>"
  let ?s1 = "self\<lparr>framedata := data, audiofile := Some ?w2\<rparr>"
  let ?V = "volume (run_commands mid self)"
  let ?F = "fstop (run_commands mid self)"
  let ?s2 = "?s1\<lparr>volume := ?V, fstop := ?F\<rparr>"
  let ?vol = "volumes self ! nat ?V * (if pwm_out ?s2 \<noteq> None then 128 else 16)"
  have rd: "readframes ?B w = (data, ?w1)"
    by (simp add: readframes_def Let_def data_def)
  have sp: "setpos p ?w1 = Inr ?w2"
    using pos by (simp add: setpos_def getnframes_def)
  have ctrl: "volume (run_commands mid ?s1) = ?V \<and> fstop (run_commands mid ?s1) = ?F"
    using run_commands_ctrl [of ?s1 self mid] nl by simp
  have s2: "run_commands mid ?s1 = ?s2"
    using run_commands_frame [of ?s1 mid] nl ctrl by simp
  have Vr: "0 \<le> ?V \<and> ?V \<le> 12" by (rule run_commands_range [OF vr])
  have pi: "py_index (volumes self) ?V = Some (volumes self ! nat ?V)"
    using table_index(1) [of ?V] Vr tab by simp
  have nz: "?vol \<noteq> 0"
    using table_index(2) [of ?V] Vr tab by simp
  have be': "pwm_out ?s2 \<noteq> None \<or> dac ?s2 \<noteq> None"
    using be by simp
  have aft: "?s2\<lparr>hw_trace := hw_trace ?s2
        @ map (\<lambda>s. if pwm_out ?s2 \<noteq> None then PulseWidth (128 + s div ?vol)
                    else DacWrite (2048 + s div ?vol))
            (take ?B (array_h data))\<rparr> = after"
    by (simp add: after_def spec_event16_fun)
  have wr: "write16 [0..<?B] (array_h data) ?vol ?s2 =
     (if ?B \<le> length (array_h data) then Returned after else Raised IndexError after)"
  proof (cases "?B \<le> length (array_h data)")
    case True
    show ?thesis
      unfolding write16_chunk [OF True nz be'] aft using True by simp
  next
    case False
    then have short: "length (array_h data) < ?B" by simp
    show ?thesis
      unfolding write16_short [OF short nz be'] aft using False by simp
  qed
  have "chunk16 p mid self = write16 [0..<?B] (array_h data) ?vol ?s2"
    unfolding chunk16_def af option.case rd prod.case Let_def sp sum.case
    by (simp add: s2 pi del: One_nat_def)
  then show ?thesis unfolding wr .
qed

lemma chunk8_full:
  assumes af: "audiofile self = Some w" and sw: "sampwidth w = 1"
    and full: "soundpos w + buffersize self \<le> length (frames w)"
    and pos: "p \<le> length (frames w)"
    and nl: "\<not> loop self"
    and tab: "volumes self = [49, 31, 21, 15, 11, 9, 7, 6, 5, 4, 3, 2, 1]"
    and vr: "0 \<le> volume self \<and> volume self \<le> 12"
    and be: "pwm_out self \<noteq> None \<or> dac self \<noteq> None"
  shows "chunk8 p mid self =
     Returned (self
       \<lparr> framedata := take (buffersize self) (drop (soundpos w) (frames w)),
         audiofile := Some (w\<lparr>soundpos := p,
            read_log := read_log w @ [(soundpos w, buffersize self)]\<rparr>),
         volume := volume (run_commands mid self),
         fstop := fstop (run_commands mid self),
         hw_trace := hw_trace self
           @ map (spec_event8 (pwm_out self \<noteq> None) (volumes self)
                    (volume (run_commands mid self)))
               (take (buffersize self) (array_B (drop (soundpos w) (frames w)))) \<rparr>)"
proof -
  have p: "p \<le> getnframes w" using pos sw by (simp add: getnframes_def)
  have tk: "take (buffersize self) (array_B (take (buffersize self) (drop (soundpos w) (frames w))))
      = take (buffersize self) (array_B (drop (soundpos w) (frames w)))"
    by (simp add: array_B_def take_map)
  show ?thesis
    unfolding chunk8_any [OF af p nl tab vr be] sw
    using full by (simp add: tk) (simp add: array_B_def)
qed

lemma chunk16_full:
  assumes af: "audiofile self = Some w" and sw: "sampwidth w = 2"
    and full: "(soundpos w + buffersize self) * 2 \<le> length (frames w)"
    and pos: "p \<le> length (frames w) div 2"
    and nl: "\<not> loop self"
    and tab: "volumes self = [49, 31, 21, 15, 11, 9, 7, 6, 5, 4, 3, 2, 1]"
    and vr: "0 \<le> volume self \<and> volume self \<le> 12"
    and be: "pwm_out self \<noteq> None \<or> dac self \<noteq> None"
  shows "chunk16 p mid self =
     Returned (self
       \<lparr> framedata := take (buffersize self * 2) (drop (soundpos w * 2) (frames w)),
         audiofile := Some (w\<lparr>soundpos := p,
            read_log := read_log w @ [(soundpos w, buffersize self)]\<rparr>),
         volume := volume (run_commands mid self),
         fstop := fstop (run_commands mid self),
         hw_trace := hw_trace self
           @ map (spec_event16 (pwm_out self \<noteq> None) (volumes self)
                    (volume (run_commands mid self)))
               (take (buffersize self) (array_h (drop (soundpos w * 2) (frames w)))) \<rparr>)"
proof -
  have p: "p \<le> getnframes w" using pos sw by (simp add: getnframes_def)
  have len: "length (take (buffersize self * 2) (drop (soundpos w * 2) (frames w)))
      = buffersize self * 2"
    using full by (simp add: add_mult_distrib)
  have "array_h (take (buffersize self * 2) (drop (soundpos w * 2) (frames w)))
      = take (buffersize self) (array_h (drop (soundpos w * 2) (frames w)))"
    using array_h_take [of "buffersize self" "drop (soundpos w * 2) (frames w)"]
    by (simp add: mult.commute)
  then have tk: "take (buffersize self)
        (array_h (take (buffersize self * 2) (drop (soundpos w * 2) (frames w))))
      = take (buffersize self) (array_h (drop (soundpos w * 2) (frames w)))"
    by simp
  have ok: "buffersize self
      \<le> length (array_h (take (buffersize self * 2) (drop (soundpos w * 2) (frames w))))"
    by (simp only: array_h_length len)
  show ?thesis
    unfolding chunk16_any [OF af p nl tab vr be] sw tk
    using ok len by simp
qed

subsection \<open>The outer loops\<close>

text \<open>
  From a cursor one chunk below the first position of the range, on a file that holds all
  the frames the range covers, the loop returns without an exception; it has written what
  the specification says for the volume levels it took, read one full chunk per level, and
  left the configuration as it was.
\<close>

lemma py_range_empty: "step = 0 \<or> hi \<le> lo \<Longrightarrow> py_range lo hi step = []"
  by (subst py_range.simps) simp

lemma py_range_step:
  "\<not> (step = 0 \<or> hi \<le> lo) \<Longrightarrow>
   py_range lo hi step = lo # py_range (lo + step) hi step"
  by (subst py_range.simps) simp

lemma loop8_run:
  assumes "audiofile self = Some w" and "sampwidth w = 1"
    and "T \<le> length (frames w)" and "soundpos w + B = a" and "buffersize self = B"
    and "\<not> loop self" and "volumes self = [49, 31, 21, 15, 11, 9, 7, 6, 5, 4, 3, 2, 1]"
    and "0 \<le> volume self \<and> volume self \<le> 12"
    and "pwm_out self \<noteq> None \<or> dac self \<noteq> None"
  shows "\<exists>s'. loop8 (py_range a T B) sched self = Returned s'
     \<and> hw_trace s' = hw_trace self
         @ spec_output (spec_event8 (pwm_out self \<noteq> None) (volumes self)) B
             (array_B (drop (soundpos w) (frames w)))
             (snapshots (length (py_range a T B)) sched self)
     \<and> audiofile s' = Some (w\<lparr>soundpos :=
            soundpos w + B * length (snapshots (length (py_range a T B)) sched self),
          read_log := read_log w @ map (\<lambda>j. (soundpos w + j * B, B))
            [0..<length (snapshots (length (py_range a T B)) sched self)]\<rparr>)
     \<and> config s' = config self \<and> 0 \<le> volume s' \<and> volume s' \<le> 12
     \<and> (sched = [] \<longrightarrow> volume s' = volume self \<and> fstop s' = fstop self)"
  using assms
proof (induction a T B arbitrary: self w sched rule: py_range.induct)
  case (1 lo hi step)
  note af = "1.prems"(1) and sw = "1.prems"(2) and T = "1.prems"(3) and a = "1.prems"(4)
    and B = "1.prems"(5) and nl = "1.prems"(6) and tab = "1.prems"(7) and vr = "1.prems"(8)
    and be = "1.prems"(9)
  show ?case
  proof (cases "step = 0 \<or> hi \<le> lo")
    case True
    then show ?thesis using af vr by (simp add: py_range_empty)
  next
    case False
    note pr = py_range_step [OF False]
    let ?n = "length (py_range (lo + step) hi step)"
    let ?s0 = "run_commands (before_check sched) self"
    let ?mid = "before_volume sched"
    have cfg0: "config ?s0 = config self" and af0: "audiofile ?s0 = Some w"
      and tr0: "hw_trace ?s0 = hw_trace self"
      using run_commands_static [OF nl, of "before_check sched"] af by simp_all
    have v0: "0 \<le> volume ?s0 \<and> volume ?s0 \<le> 12" by (rule run_commands_range [OF vr])
    have B0: "buffersize ?s0 = step" and nl0: "\<not> loop ?s0"
      and tab0: "volumes ?s0 = [49, 31, 21, 15, 11, 9, 7, 6, 5, 4, 3, 2, 1]"
      and be0: "pwm_out ?s0 \<noteq> None \<or> dac ?s0 \<noteq> None"
      and pw0: "pwm_out ?s0 = pwm_out self"
      using cfg0 B nl tab be by (simp_all add: config_def)
    show ?thesis
    proof (cases "fstop ?s0")
      case True
      have "loop8 (py_range lo hi step) sched self = Returned ?s0"
        using True by (simp add: pr Let_def)
      moreover have "snapshots (length (py_range lo hi step)) sched self = []"
        using True by (simp add: pr Let_def)
      ultimately show ?thesis using cfg0 af0 tr0 v0 by (simp add: before_check_def)
    next
      case running: False
      let ?s1' = "run_commands ?mid ?s0"
      let ?V = "volume ?s1'"
      let ?w1 = "w\<lparr>soundpos := lo, read_log := read_log w @ [(soundpos w, step)]\<rparr>"
      let ?out = "map (spec_event8 (pwm_out self \<noteq> None) (volumes self) ?V)
               (take step (array_B (drop (soundpos w) (frames w))))"
      let ?s1 = "?s0\<lparr> framedata := take step (drop (soundpos w) (frames w)),
         audiofile := Some ?w1, volume := ?V, fstop := fstop ?s1',
         hw_trace := hw_trace self @ ?out \<rparr>"
      have lt: "lo < hi" using False by simp
      have ch: "chunk8 lo ?mid ?s0 = Returned ?s1"
        using chunk8_full [OF af0 sw _ _ nl0 tab0 v0 be0, of lo ?mid] a T lt
        by (simp add: B0 tr0 pw0 tab0 tab)
      have V1: "0 \<le> ?V \<and> ?V \<le> 12" by (rule run_commands_range [OF v0])
      have cfg1: "config ?s1 = config self"
        using cfg0 by (simp add: config_def)
      have ih: "\<exists>s'. loop8 (py_range (lo + step) hi step) (tl sched) ?s1 = Returned s'
         \<and> hw_trace s' = hw_trace ?s1
             @ spec_output (spec_event8 (pwm_out ?s1 \<noteq> None) (volumes ?s1)) step
                 (array_B (drop (soundpos ?w1) (frames ?w1)))
                 (snapshots ?n (tl sched) ?s1)
         \<and> audiofile s' = Some (?w1\<lparr>soundpos :=
                soundpos ?w1 + step * length (snapshots ?n (tl sched) ?s1),
              read_log := read_log ?w1 @ map (\<lambda>j. (soundpos ?w1 + j * step, step))
                [0..<length (snapshots ?n (tl sched) ?s1)]\<rparr>)
         \<and> config s' = config ?s1 \<and> 0 \<le> volume s' \<and> volume s' \<le> 12
         \<and> (tl sched = [] \<longrightarrow> volume s' = volume ?s1 \<and> fstop s' = fstop ?s1)"
        by (rule "1.IH" [OF False])
           (use sw T B0 nl0 tab0 V1 be0 in simp_all)
      then obtain s' where
        run: "loop8 (py_range (lo + step) hi step) (tl sched) ?s1 = Returned s'"
        and tr: "hw_trace s' = hw_trace ?s1
             @ spec_output (spec_event8 (pwm_out ?s1 \<noteq> None) (volumes ?s1)) step
                 (array_B (drop (soundpos ?w1) (frames ?w1)))
                 (snapshots ?n (tl sched) ?s1)"
        and fl: "audiofile s' = Some (?w1\<lparr>soundpos :=
                soundpos ?w1 + step * length (snapshots ?n (tl sched) ?s1),
              read_log := read_log ?w1 @ map (\<lambda>j. (soundpos ?w1 + j * step, step))
                [0..<length (snapshots ?n (tl sched) ?s1)]\<rparr>)"
        and cfg: "config s' = config ?s1" and vs': "0 \<le> volume s' \<and> volume s' \<le> 12"
        and quiet: "tl sched = [] \<longrightarrow> volume s' = volume ?s1 \<and> fstop s' = fstop ?s1"
        by blast
      have nl1': "\<not> loop ?s1'" and rd1': "ready ?s1' = ready ?s0"
        using run_commands_static(1) [OF nl0, of ?mid] nl0 by (simp_all add: config_def)
      have snap_eq: "snapshots ?n (tl sched) ?s1 = snapshots ?n (tl sched) ?s1'"
        by (rule snapshots_ctrl) (use nl0 nl1' rd1' in simp_all)
      let ?vs = "snapshots ?n (tl sched) ?s1'"
      have snap: "snapshots (length (py_range lo hi step)) sched self = ?V # ?vs"
        using running by (simp add: pr Let_def)
      have loop: "loop8 (py_range lo hi step) sched self = Returned s'"
        using running ch run by (simp add: pr Let_def)
      have dr: "drop step (array_B (drop (soundpos w) (frames w))) = array_B (drop lo (frames w))"
        using a by (simp add: array_B_def drop_map add.commute)
      have c1: "hw_trace s' = hw_trace self
         @ spec_output (spec_event8 (pwm_out self \<noteq> None) (volumes self)) step
             (array_B (drop (soundpos w) (frames w))) (?V # ?vs)"
        using tr [unfolded snap_eq] by (simp add: pw0 tab0 tab dr)
      have "map (\<lambda>j. (soundpos w + j * step, step)) [0..<Suc (length ?vs)]
          = (soundpos w, step) # map (\<lambda>j. (lo + j * step, step)) [0..<length ?vs]"
        using a by (simp add: map_upt_Suc del: upt_Suc)
      then have c2: "audiofile s' = Some (w\<lparr>soundpos := soundpos w + step * length (?V # ?vs),
          read_log := read_log w @ map (\<lambda>j. (soundpos w + j * step, step))
            [0..<length (?V # ?vs)]\<rparr>)"
        using fl [unfolded snap_eq] a by (simp del: upt_Suc)
      have c3: "config s' = config self" using cfg cfg1 by simp
      have c4: "sched = [] \<longrightarrow> volume s' = volume self \<and> fstop s' = fstop self"
        using quiet by (simp add: before_check_def before_volume_def)
      show ?thesis
        unfolding snap loop using c1 c2 c3 c4 vs' by blast
    qed
  qed
qed

lemma loop16_run:
  assumes "audiofile self = Some w" and "sampwidth w = 2"
    and "T \<le> length (frames w) div 2" and "soundpos w + B = a" and "buffersize self = B"
    and "\<not> loop self" and "volumes self = [49, 31, 21, 15, 11, 9, 7, 6, 5, 4, 3, 2, 1]"
    and "0 \<le> volume self \<and> volume self \<le> 12"
    and "pwm_out self \<noteq> None \<or> dac self \<noteq> None"
  shows "\<exists>s'. loop16 (py_range a T B) sched self = Returned s'
     \<and> hw_trace s' = hw_trace self
         @ spec_output (spec_event16 (pwm_out self \<noteq> None) (volumes self)) B
             (array_h (drop (soundpos w * 2) (frames w)))
             (snapshots (length (py_range a T B)) sched self)
     \<and> audiofile s' = Some (w\<lparr>soundpos :=
            soundpos w + B * length (snapshots (length (py_range a T B)) sched self),
          read_log := read_log w @ map (\<lambda>j. (soundpos w + j * B, B))
            [0..<length (snapshots (length (py_range a T B)) sched self)]\<rparr>)
     \<and> config s' = config self \<and> 0 \<le> volume s' \<and> volume s' \<le> 12
     \<and> (sched = [] \<longrightarrow> volume s' = volume self \<and> fstop s' = fstop self)"
  using assms
proof (induction a T B arbitrary: self w sched rule: py_range.induct)
  case (1 lo hi step)
  note af = "1.prems"(1) and sw = "1.prems"(2) and T = "1.prems"(3) and a = "1.prems"(4)
    and B = "1.prems"(5) and nl = "1.prems"(6) and tab = "1.prems"(7) and vr = "1.prems"(8)
    and be = "1.prems"(9)
  show ?case
  proof (cases "step = 0 \<or> hi \<le> lo")
    case True
    then show ?thesis using af vr by (simp add: py_range_empty)
  next
    case False
    note pr = py_range_step [OF False]
    let ?n = "length (py_range (lo + step) hi step)"
    let ?s0 = "run_commands (before_check sched) self"
    let ?mid = "before_volume sched"
    have cfg0: "config ?s0 = config self" and af0: "audiofile ?s0 = Some w"
      and tr0: "hw_trace ?s0 = hw_trace self"
      using run_commands_static [OF nl, of "before_check sched"] af by simp_all
    have v0: "0 \<le> volume ?s0 \<and> volume ?s0 \<le> 12" by (rule run_commands_range [OF vr])
    have B0: "buffersize ?s0 = step" and nl0: "\<not> loop ?s0"
      and tab0: "volumes ?s0 = [49, 31, 21, 15, 11, 9, 7, 6, 5, 4, 3, 2, 1]"
      and be0: "pwm_out ?s0 \<noteq> None \<or> dac ?s0 \<noteq> None"
      and pw0: "pwm_out ?s0 = pwm_out self"
      using cfg0 B nl tab be by (simp_all add: config_def)
    show ?thesis
    proof (cases "fstop ?s0")
      case True
      have "loop16 (py_range lo hi step) sched self = Returned ?s0"
        using True by (simp add: pr Let_def)
      moreover have "snapshots (length (py_range lo hi step)) sched self = []"
        using True by (simp add: pr Let_def)
      ultimately show ?thesis using cfg0 af0 tr0 v0 by (simp add: before_check_def)
    next
      case running: False
      let ?s1' = "run_commands ?mid ?s0"
      let ?V = "volume ?s1'"
      let ?w1 = "w\<lparr>soundpos := lo, read_log := read_log w @ [(soundpos w, step)]\<rparr>"
      let ?out = "map (spec_event16 (pwm_out self \<noteq> None) (volumes self) ?V)
               (take step (array_h (drop (soundpos w * 2) (frames w))))"
      let ?s1 = "?s0\<lparr> framedata := take (step * 2) (drop (soundpos w * 2) (frames w)),
         audiofile := Some ?w1, volume := ?V, fstop := fstop ?s1',
         hw_trace := hw_trace self @ ?out \<rparr>"
      have lt: "lo < hi" using False by simp
      have ch: "chunk16 lo ?mid ?s0 = Returned ?s1"
        using chunk16_full [OF af0 sw _ _ nl0 tab0 v0 be0, of lo ?mid] a T lt
        by (simp add: B0 tr0 pw0 tab0 tab)
      have V1: "0 \<le> ?V \<and> ?V \<le> 12" by (rule run_commands_range [OF v0])
      have cfg1: "config ?s1 = config self"
        using cfg0 by (simp add: config_def)
      have ih: "\<exists>s'. loop16 (py_range (lo + step) hi step) (tl sched) ?s1 = Returned s'
         \<and> hw_trace s' = hw_trace ?s1
             @ spec_output (spec_event16 (pwm_out ?s1 \<noteq> None) (volumes ?s1)) step
                 (array_h (drop (soundpos ?w1 * 2) (frames ?w1)))
                 (snapshots ?n (tl sched) ?s1)
         \<and> audiofile s' = Some (?w1\<lparr>soundpos :=
                soundpos ?w1 + step * length (snapshots ?n (tl sched) ?s1),
              read_log := read_log ?w1 @ map (\<lambda>j. (soundpos ?w1 + j * step, step))
                [0..<length (snapshots ?n (tl sched) ?s1)]\<rparr>)
         \<and> config s' = config ?s1 \<and> 0 \<le> volume s' \<and> volume s' \<le> 12
         \<and> (tl sched = [] \<longrightarrow> volume s' = volume ?s1 \<and> fstop s' = fstop ?s1)"
        by (rule "1.IH" [OF False])
           (use sw T B0 nl0 tab0 V1 be0 in simp_all)
      then obtain s' where
        run: "loop16 (py_range (lo + step) hi step) (tl sched) ?s1 = Returned s'"
        and tr: "hw_trace s' = hw_trace ?s1
             @ spec_output (spec_event16 (pwm_out ?s1 \<noteq> None) (volumes ?s1)) step
                 (array_h (drop (soundpos ?w1 * 2) (frames ?w1)))
                 (snapshots ?n (tl sched) ?s1)"
        and fl: "audiofile s' = Some (?w1\<lparr>soundpos :=
                soundpos ?w1 + step * length (snapshots ?n (tl sched) ?s1),
              read_log := read_log ?w1 @ map (\<lambda>j. (soundpos ?w1 + j * step, step))
                [0..<length (snapshots ?n (tl sched) ?s1)]\<rparr>)"
        and cfg: "config s' = config ?s1" and vs': "0 \<le> volume s' \<and> volume s' \<le> 12"
        and quiet: "tl sched = [] \<longrightarrow> volume s' = volume ?s1 \<and> fstop s' = fstop ?s1"
        by blast
      have nl1': "\<not> loop ?s1'" and rd1': "ready ?s1' = ready ?s0"
        using run_commands_static(1) [OF nl0, of ?mid] nl0 by (simp_all add: config_def)
      have snap_eq: "snapshots ?n (tl sched) ?s1 = snapshots ?n (tl sched) ?s1'"
        by (rule snapshots_ctrl) (use nl0 nl1' rd1' in simp_all)
      let ?vs = "snapshots ?n (tl sched) ?s1'"
      have snap: "snapshots (length (py_range lo hi step)) sched self = ?V # ?vs"
        using running by (simp add: pr Let_def)
      have loop: "loop16 (py_range lo hi step) sched self = Returned s'"
        using running ch run by (simp add: pr Let_def)
      have "drop step (array_h (drop (soundpos w * 2) (frames w)))
          = array_h (drop (2 * step) (drop (soundpos w * 2) (frames w)))"
        by (simp only: array_h_drop)
      also have "drop (2 * step) (drop (soundpos w * 2) (frames w)) = drop (lo * 2) (frames w)"
      proof -
        have "lo * 2 = 2 * step + soundpos w * 2" using a by auto
        then show ?thesis by simp
      qed
      finally have dr: "drop step (array_h (drop (soundpos w * 2) (frames w)))
          = array_h (drop (lo * 2) (frames w))" .
      have c1: "hw_trace s' = hw_trace self
         @ spec_output (spec_event16 (pwm_out self \<noteq> None) (volumes self)) step
             (array_h (drop (soundpos w * 2) (frames w))) (?V # ?vs)"
        using tr [unfolded snap_eq] by (simp add: pw0 tab0 tab dr)
      have "map (\<lambda>j. (soundpos w + j * step, step)) [0..<Suc (length ?vs)]
          = (soundpos w, step) # map (\<lambda>j. (lo + j * step, step)) [0..<length ?vs]"
        using a by (simp add: map_upt_Suc del: upt_Suc)
      then have c2: "audiofile s' = Some (w\<lparr>soundpos := soundpos w + step * length (?V # ?vs),
          read_log := read_log w @ map (\<lambda>j. (soundpos w + j * step, step))
            [0..<length (?V # ?vs)]\<rparr>)"
        using fl [unfolded snap_eq] a by (simp del: upt_Suc)
      have c3: "config s' = config self" using cfg cfg1 by simp
      have c4: "sched = [] \<longrightarrow> volume s' = volume self \<and> fstop s' = fstop self"
        using quiet by (simp add: before_check_def before_volume_def)
      show ?thesis
        unfolding snap loop using c1 c2 c3 c4 vs' by blast
    qed
  qed
qed

subsection \<open>A whole stream\<close>

lemma play8_run:
  assumes "stream_ready 1 w self"
  shows "\<exists>s'. play8 sched self = Returned s'
     \<and> hw_trace s' = hw_trace self
         @ spec_output (spec_event8 (pwm_out self \<noteq> None) (volumes self)) (buffersize self)
             (array_B (frames w))
             (snapshots (length (py_range (buffersize self) (total_frames self) (buffersize self)))
                sched self)
     \<and> audiofile s' = Some (w\<lparr>soundpos := buffersize self * length (snapshots
              (length (py_range (buffersize self) (total_frames self) (buffersize self)))
              sched self),
          read_log := read_log w @ map (\<lambda>j. (j * buffersize self, buffersize self))
            [0..<length (snapshots
              (length (py_range (buffersize self) (total_frames self) (buffersize self)))
              sched self)]\<rparr>)
     \<and> config s' = config self \<and> 0 \<le> volume s' \<and> volume s' \<le> 12
     \<and> (sched = [] \<longrightarrow> volume s' = volume self \<and> fstop s' = fstop self)"
proof -
  have h: "audiofile self = Some w" "sampwidth w = 1" "soundpos w = 0"
    "total_frames self \<le> length (frames w)" "0 < framerate self" "0 < buffersize self"
    "\<not> loop self" "volumes self = [49, 31, 21, 15, 11, 9, 7, 6, 5, 4, 3, 2, 1]"
    "0 \<le> volume self \<and> volume self \<le> 12" "pwm_out self \<noteq> None \<or> dac self \<noteq> None"
    using assms by (simp_all add: stream_ready_def getnframes_def)
  have "soundpos w + buffersize self = buffersize self" using h(3) by simp
  from loop8_run [OF h(1,2,4) this refl h(7,8,9,10), of sched]
  show ?thesis using h(3,5,6) by (simp add: play8_def)
qed

lemma play16_run:
  assumes "stream_ready 2 w self"
  shows "\<exists>s'. play16 sched self = Returned s'
     \<and> hw_trace s' = hw_trace self
         @ spec_output (spec_event16 (pwm_out self \<noteq> None) (volumes self)) (buffersize self)
             (array_h (frames w))
             (snapshots (length (py_range (buffersize self) (total_frames self) (buffersize self)))
                sched self)
     \<and> audiofile s' = Some (w\<lparr>soundpos := buffersize self * length (snapshots
              (length (py_range (buffersize self) (total_frames self) (buffersize self)))
              sched self),
          read_log := read_log w @ map (\<lambda>j. (j * buffersize self, buffersize self))
            [0..<length (snapshots
              (length (py_range (buffersize self) (total_frames self) (buffersize self)))
              sched self)]\<rparr>)
     \<and> config s' = config self \<and> 0 \<le> volume s' \<and> volume s' \<le> 12
     \<and> (sched = [] \<longrightarrow> volume s' = volume self \<and> fstop s' = fstop self)"
proof -
  have h: "audiofile self = Some w" "sampwidth w = 2" "soundpos w = 0"
    "total_frames self \<le> length (frames w) div 2" "0 < framerate self" "0 < buffersize self"
    "\<not> loop self" "volumes self = [49, 31, 21, 15, 11, 9, 7, 6, 5, 4, 3, 2, 1]"
    "0 \<le> volume self \<and> volume self \<le> 12" "pwm_out self \<noteq> None \<or> dac self \<noteq> None"
    using assms by (simp_all add: stream_ready_def getnframes_def)
  have "soundpos w + buffersize self = buffersize self" using h(3) by simp
  from loop16_run [OF h(1,2,4) this refl h(7,8,9,10), of sched]
  show ?thesis using h(3,5,6) by (simp add: play16_def)
qed

lemma snapshots_length: "length (snapshots n sched self) \<le> n"
  by (induction n arbitrary: sched self) (simp_all add: Let_def)

lemma py_range_bounds: "p \<in> set (py_range a b s) \<Longrightarrow> a \<le> p \<and> p < b"
proof (induction a b s rule: py_range.induct)
  case (1 lo hi step)
  show ?case
  proof (cases "step = 0 \<or> hi \<le> lo")
    case True
    then show ?thesis using "1.prems" by (simp add: py_range_empty)
  next
    case False
    then show ?thesis
      using "1.prems" "1.IH" [OF False] by (auto simp: py_range_step)
  qed
qed

lemma py_range_map:
  "py_range a b s = map (\<lambda>j. a + j * s) [0..<length (py_range a b s)]"
proof (induction a b s rule: py_range.induct)
  case (1 lo hi step)
  show ?case
  proof (cases "step = 0 \<or> hi \<le> lo")
    case True
    then show ?thesis by (simp add: py_range_empty)
  next
    case False
    have "map (\<lambda>j. lo + j * step) [0..<Suc (length (py_range (lo + step) hi step))]
        = lo # map (\<lambda>j. lo + step + j * step) [0..<length (py_range (lo + step) hi step)]"
      by (simp add: map_upt_Suc del: upt_Suc) 
    then show ?thesis
      using "1.IH" [OF False] by (simp add: py_range_step [OF False] del: upt_Suc)
  qed
qed

lemma py_range_total: "length (py_range B T B) * B \<le> T - T mod B"
proof (cases "py_range B T B = []")
  case True
  then show ?thesis by simp
next
  case False
  let ?n = "length (py_range B T B)"
  have n: "0 < ?n" using False by simp
  have B: "0 < B"
  proof (rule ccontr)
    assume "\<not> 0 < B"
    then have "py_range B T B = []" by (simp add: py_range_empty)
    with False show False by simp
  qed
  have "py_range B T B ! (?n - 1) \<in> set (py_range B T B)" using n by simp
  moreover have "py_range B T B ! (?n - 1) = map (\<lambda>j. B + j * B) [0..<?n] ! (?n - 1)"
    using arg_cong [OF py_range_map [of B T B], of "\<lambda>xs. xs ! (?n - 1)"] .
  moreover have "map (\<lambda>j. B + j * B) [0..<?n] ! (?n - 1) = B + (?n - 1) * B"
    using n by simp
  ultimately have "B + (?n - 1) * B \<in> set (py_range B T B)" by simp
  then have "B + (?n - 1) * B < T" using py_range_bounds by blast
  moreover have "B + (?n - 1) * B = ?n * B" using n by (cases ?n) simp_all
  ultimately have "?n * B \<le> T" by simp
  then have "?n \<le> T div B"
    using B by (simp add: less_eq_div_iff_mult_less_eq)
  then have "?n * B \<le> (T div B) * B" by simp
  also have "\<dots> = T - T mod B" by (simp add: minus_mod_eq_div_mult)
  finally show ?thesis .
qed

lemma spec_output_take:
  "B * length vs \<le> N \<Longrightarrow> spec_output ev B (take N xs) vs = spec_output ev B xs vs"
proof (induction vs arbitrary: xs N)
  case Nil
  show ?case by simp
next
  case (Cons v vs)
  have b: "B \<le> N" and r: "B * length vs \<le> N - B" using Cons.prems by simp_all
  have "drop B (take N xs) = take (N - B) (drop B xs)" by (simp add: drop_take)
  then show ?case using Cons.IH [OF r, of "drop B xs"] b by (simp add: min_absorb1)
qed

lemma levels_length: "length (levels sched self) \<le> length (positions self)"
  by (simp add: levels_def snapshots_length)

lemma reads_by_position:
  assumes "m \<le> length (py_range B T B)"
  shows "map (\<lambda>j. (j * B, B)) [0..<m] = map (\<lambda>p. (p - B, B)) (take m (py_range B T B))"
proof -
  let ?n = "length (py_range B T B)"
  have "take m (py_range B T B) = take m (map (\<lambda>j. B + j * B) [0..<?n])"
    using arg_cong [OF py_range_map [of B T B], of "take m"] .
  also have "\<dots> = map (\<lambda>j. B + j * B) [0..<m]"
    using assms by (simp add: take_map)
  finally show ?thesis by simp
qed

lemma play8_summary:
  assumes "stream_ready 1 w self"
  shows "raised (play8 sched self) = None"
    and "hw_trace (state_of (play8 sched self)) = hw_trace self
         @ spec_output (spec_event8 (pwm_out self \<noteq> None) (volumes self)) (buffersize self)
             (array_B (frames w)) (levels sched self)"
    and "reads_of (state_of (play8 sched self)) = read_log w
         @ map (\<lambda>j. (j * buffersize self, buffersize self)) [0..<length (levels sched self)]"
proof -
  from play8_run [OF assms, of sched] obtain s' where
    "play8 sched self = Returned s'"
    "hw_trace s' = hw_trace self
         @ spec_output (spec_event8 (pwm_out self \<noteq> None) (volumes self)) (buffersize self)
             (array_B (frames w)) (levels sched self)"
    "audiofile s' = Some (w\<lparr>soundpos := buffersize self * length (levels sched self),
          read_log := read_log w @ map (\<lambda>j. (j * buffersize self, buffersize self))
            [0..<length (levels sched self)]\<rparr>)"
    unfolding levels_def positions_def by blast
  then show "raised (play8 sched self) = None"
    and "hw_trace (state_of (play8 sched self)) = hw_trace self
         @ spec_output (spec_event8 (pwm_out self \<noteq> None) (volumes self)) (buffersize self)
             (array_B (frames w)) (levels sched self)"
    and "reads_of (state_of (play8 sched self)) = read_log w
         @ map (\<lambda>j. (j * buffersize self, buffersize self)) [0..<length (levels sched self)]"
    by (simp_all add: reads_of_def)
qed

lemma play16_summary:
  assumes "stream_ready 2 w self"
  shows "raised (play16 sched self) = None"
    and "hw_trace (state_of (play16 sched self)) = hw_trace self
         @ spec_output (spec_event16 (pwm_out self \<noteq> None) (volumes self)) (buffersize self)
             (array_h (frames w)) (levels sched self)"
    and "reads_of (state_of (play16 sched self)) = read_log w
         @ map (\<lambda>j. (j * buffersize self, buffersize self)) [0..<length (levels sched self)]"
proof -
  from play16_run [OF assms, of sched] obtain s' where
    "play16 sched self = Returned s'"
    "hw_trace s' = hw_trace self
         @ spec_output (spec_event16 (pwm_out self \<noteq> None) (volumes self)) (buffersize self)
             (array_h (frames w)) (levels sched self)"
    "audiofile s' = Some (w\<lparr>soundpos := buffersize self * length (levels sched self),
          read_log := read_log w @ map (\<lambda>j. (j * buffersize self, buffersize self))
            [0..<length (levels sched self)]\<rparr>)"
    unfolding levels_def positions_def by blast
  then show "raised (play16 sched self) = None"
    and "hw_trace (state_of (play16 sched self)) = hw_trace self
         @ spec_output (spec_event16 (pwm_out self \<noteq> None) (volumes self)) (buffersize self)
             (array_h (frames w)) (levels sched self)"
    and "reads_of (state_of (play16 sched self)) = read_log w
         @ map (\<lambda>j. (j * buffersize self, buffersize self)) [0..<length (levels sched self)]"
    by (simp_all add: reads_of_def)
qed

subsection \<open>The example sessions\<close>

lemma session_eq:
  "session w pwm thread =
     \<lparr> filename = ''/flash/SND/idiota8.wav'', pwm_mode = pwm, loop = False,
       dac = (if pwm then None else Some (Dac DAC_PORT (if sampwidth w > 1 then 12 else 8))),
       pwm_out = (if pwm then Some (PwmChannel CHANNEL PIN 50) else None),
       timer = (if pwm then Some (Timer TIMER ((84000000 * 2) div 255 div FREQ) 255) else None),
       audiofile = Some (w\<lparr>soundpos := 0, read_log := []\<rparr>),
       adatawidth = (if sampwidth w > 1 then 12 else 8), framedata = [],
       buffersize = 2048, ready = True, threading = thread,
       volumes = [49, 31, 21, 15, 11, 9, 7, 6, 5, 4, 3, 2, 1], volume = 10,
       fstop = True, total_frames = getnframes w, framerate = framerate_hdr w,
       hw_trace = [] \<rparr>"
proof -
  have f: "[''/flash/SND/idiota8.wav'' \<mapsto> w] ''/flash/SND/idiota8.wav'' = Some w" by simp
  show ?thesis
    unfolding session_def
      begin'_opened [of "[''/flash/SND/idiota8.wav'' \<mapsto> w]" "''/flash/SND/idiota8.wav''" w, OF f]
    by (simp add: init_def)
qed

lemma wav_reset:
  "(wav8 n m)\<lparr>soundpos := 0, read_log := []\<rparr> = wav8 n m"
  "(wav16 n)\<lparr>soundpos := 0, read_log := []\<rparr> = wav16 n"
  by (simp_all add: wav8_def wav16_def)

lemma started_ready:
  "stream_ready 1 (wav8 n m) (started (wav8 n m) pwm thread)"
  "stream_ready 2 (wav16 n) (started (wav16 n) pwm thread)"
  by (simp_all add: started_def session_eq wav_reset stream_ready_def)
     (simp_all add: wav8_def wav16_def getnframes_def)

lemma array_h_replicate:
  "array_h (replicate (2 * n) b) =
     replicate n (if uint b + 256 * uint b < 32768 then uint b + 256 * uint b
                  else uint b + 256 * uint b - 65536)"
  by (induction n) (simp_all add: Let_def)

lemma started_positions:
  "positions (started (wav8 4096 904) pwm thread) = [2048, 4096]"
  "positions (started (wav8 4096 0) pwm thread) = [2048]"
  "positions (started (wav16 5000) pwm thread) = [2048, 4096]"
  "positions (started (wav8 1000 0) pwm thread) = []"
  "positions (started (wav16 1000) pwm thread) = []"
  by (simp_all add: positions_def started_def session_eq wav8_def wav16_def getnframes_def
      py_range_step py_range_empty)

lemma started_fields:
  "buffersize (started w pwm thread) = 2048"
  "hw_trace (started w pwm thread) = []"
  "volume (started w pwm thread) = 10"
  "fstop (started w pwm thread) = False"
  "volumes (started w pwm thread) = [49, 31, 21, 15, 11, 9, 7, 6, 5, 4, 3, 2, 1]"
  "total_frames (started w pwm thread) = getnframes w"
  "pwm_out (started w True thread) = Some (PwmChannel CHANNEL PIN 50)"
  "pwm_out (started w False thread) = None"
  "loop (started w pwm thread) = False"
  by (simp_all add: started_def session_eq)

lemma wav_fields:
  "read_log (wav8 n m) = []" "getnframes (wav8 n m) = n + m"
  "frames (wav8 n m) = replicate n 200 @ replicate m 98"
  "read_log (wav16 n) = []" "getnframes (wav16 n) = n"
  "frames (wav16 n) = replicate (2 * n) 253"
  by (simp_all add: wav8_def wav16_def getnframes_def)

lemma started_levels:
  "levels [] (started (wav8 4096 904) pwm thread) = [10, 10]"
  "levels [] (started (wav8 4096 0) pwm thread) = [10]"
  "levels [] (started (wav16 5000) pwm thread) = [10, 10]"
  "levels [([], [VolumeUp]), ([Stop], [])] (started (wav8 4096 904) pwm thread) = [11]"
  "levels [([], []), ([Stop], [])] (started (wav8 4096 904) pwm thread) = [10]"
  "levels [([], []), ([Stop], [])] (started (wav16 5000) pwm thread) = [10]"
  by (simp_all add: levels_def started_positions)
     (simp_all add: started_def session_eq before_check_def before_volume_def Let_def
        volume_up_def stop_def)

subsection \<open>What a chunk writes\<close>

text \<open>
  C1.  At a chunk boundary of a non-loop stream (the file is open, the position is within
  the file, the volume level is between 0 and 12, an output is configured), with \<open>v\<close> the
  volume level when the loop takes it, that is after the controller's calls \<open>mid\<close>: the
  chunk of \<open>_play16\<close> adds to the trace, for each of the first \<open>buffersize\<close> samples \<open>s\<close>
  of the data it read, the pulse width \<open>128 + s div (volumes[v] * 128)\<close> when the pulse
  output is set and the converter value \<open>2048 + s div (volumes[v] * 16)\<close> otherwise; the
  chunk of \<open>_play8\<close> adds \<open>s div volumes[v]\<close>, to the pulse output when it is set and to
  the converter otherwise.
\<close>

theorem chunk_output:
  assumes "audiofile self = Some w" and "p \<le> getnframes w" and "\<not> loop self"
    and "volumes self = [49, 31, 21, 15, 11, 9, 7, 6, 5, 4, 3, 2, 1]"
    and "0 \<le> volume self \<and> volume self \<le> 12"
    and "pwm_out self \<noteq> None \<or> dac self \<noteq> None"
  shows "framedata (state_of (chunk16 p mid self)) = fst (readframes (buffersize self) w)
   \<and> volume (state_of (chunk16 p mid self)) = volume (run_commands mid self)
   \<and> hw_trace (state_of (chunk16 p mid self)) = hw_trace self
       @ map (\<lambda>s. if pwm_out self \<noteq> None
                 then PulseWidth (128 + s div (volumes self ! nat (volume (run_commands mid self)) * 128))
                 else DacWrite (2048 + s div (volumes self ! nat (volume (run_commands mid self)) * 16)))
           (take (buffersize self) (array_h (framedata (state_of (chunk16 p mid self)))))
   \<and> framedata (state_of (chunk8 p mid self)) = fst (readframes (buffersize self) w)
   \<and> volume (state_of (chunk8 p mid self)) = volume (run_commands mid self)
   \<and> hw_trace (state_of (chunk8 p mid self)) = hw_trace self
       @ map (\<lambda>s. if pwm_out self \<noteq> None
                 then PulseWidth (s div volumes self ! nat (volume (run_commands mid self)))
                 else DacWrite (s div volumes self ! nat (volume (run_commands mid self))))
           (take (buffersize self) (array_B (framedata (state_of (chunk8 p mid self)))))"
proof -
  have rd: "fst (readframes (buffersize self) w)
      = take (buffersize self * sampwidth w) (drop (soundpos w * sampwidth w) (frames w))"
    by (simp add: readframes_def Let_def)
  show ?thesis
    unfolding chunk8_any [OF assms] chunk16_any [OF assms] rd
    by (simp add: spec_event8_fun spec_event16_fun)
qed

theorem chunk_output_witness:
  "audiofile (started (wav8 4096 904) True True) = Some (wav8 4096 904)
   \<and> 2048 \<le> getnframes (wav8 4096 904)
   \<and> \<not> loop (started (wav8 4096 904) True True)
   \<and> volumes (started (wav8 4096 904) True True) = [49, 31, 21, 15, 11, 9, 7, 6, 5, 4, 3, 2, 1]
   \<and> 0 \<le> volume (started (wav8 4096 904) True True)
   \<and> volume (started (wav8 4096 904) True True) \<le> 12
   \<and> pwm_out (started (wav8 4096 904) True True) = Some (PwmChannel CHANNEL PIN 50)
   \<and> hw_trace (state_of (chunk8 2048 [VolumeUp] (started (wav8 4096 904) True True)))
        = replicate 2048 (PulseWidth 100)
   \<and> audiofile (started (wav16 5000) False True) = Some (wav16 5000)
   \<and> 2048 \<le> getnframes (wav16 5000)
   \<and> \<not> loop (started (wav16 5000) False True)
   \<and> volumes (started (wav16 5000) False True) = [49, 31, 21, 15, 11, 9, 7, 6, 5, 4, 3, 2, 1]
   \<and> 0 \<le> volume (started (wav16 5000) False True)
   \<and> volume (started (wav16 5000) False True) \<le> 12
   \<and> dac (started (wav16 5000) False True) = Some (Dac DAC_PORT 12)
   \<and> hw_trace (state_of (chunk16 2048 [VolumeUp] (started (wav16 5000) False True)))
        = replicate 2048 (DacWrite 2031)"
proof -
  have a8: "take 2048 (array_B (fst (readframes 2048 (wav8 4096 904)))) = replicate 2048 200"
    by (simp add: readframes_def wav8_def array_B_def)
  have "fst (readframes 2048 (wav16 5000)) = replicate (2 * 2048) 253"
    by (simp add: readframes_def wav16_def)
  then have a16: "take 2048 (array_h (fst (readframes 2048 (wav16 5000)))) = replicate 2048 (- 515)"
    by (simp only: array_h_replicate) simp
  have h8: "audiofile (started (wav8 4096 904) True True) = Some (wav8 4096 904)"
    "2048 \<le> getnframes (wav8 4096 904)"
    "\<not> loop (started (wav8 4096 904) True True)"
    "volumes (started (wav8 4096 904) True True) = [49, 31, 21, 15, 11, 9, 7, 6, 5, 4, 3, 2, 1]"
    "0 \<le> volume (started (wav8 4096 904) True True)
       \<and> volume (started (wav8 4096 904) True True) \<le> 12"
    "pwm_out (started (wav8 4096 904) True True) \<noteq> None
       \<or> dac (started (wav8 4096 904) True True) \<noteq> None"
    by (simp_all add: started_def session_eq wav_reset)
       (simp add: wav8_def getnframes_def)
  have h16: "audiofile (started (wav16 5000) False True) = Some (wav16 5000)"
    "2048 \<le> getnframes (wav16 5000)"
    "\<not> loop (started (wav16 5000) False True)"
    "volumes (started (wav16 5000) False True) = [49, 31, 21, 15, 11, 9, 7, 6, 5, 4, 3, 2, 1]"
    "0 \<le> volume (started (wav16 5000) False True)
       \<and> volume (started (wav16 5000) False True) \<le> 12"
    "pwm_out (started (wav16 5000) False True) \<noteq> None
       \<or> dac (started (wav16 5000) False True) \<noteq> None"
    by (simp_all add: started_def session_eq wav_reset)
       (simp add: wav16_def getnframes_def)
  have v: "volume (run_commands [VolumeUp] (started (wav8 4096 904) True True)) = 11"
    "volume (run_commands [VolumeUp] (started (wav16 5000) False True)) = 11"
    by (simp_all add: started_def session_eq volume_up_def)
  have c: "buffersize (started (wav8 4096 904) True True) = 2048"
    "hw_trace (started (wav8 4096 904) True True) = []"
    "pwm_out (started (wav8 4096 904) True True) = Some (PwmChannel CHANNEL PIN 50)"
    "buffersize (started (wav16 5000) False True) = 2048"
    "hw_trace (started (wav16 5000) False True) = []"
    "pwm_out (started (wav16 5000) False True) = None"
    by (simp_all add: started_def session_eq)
  note r8 = chunk_output [OF h8, of "[VolumeUp]"]
  note r16 = chunk_output [OF h16, of "[VolumeUp]"]
  have t8: "hw_trace (state_of (chunk8 2048 [VolumeUp] (started (wav8 4096 904) True True)))
      = map (\<lambda>s. PulseWidth (s div [49, 31, 21, 15, 11, 9, 7, 6, 5, 4, 3, 2, 1] ! nat 11))
          (replicate 2048 200)"
    using r8 [unfolded c v h8(4)] a8 by simp
  have t16: "hw_trace (state_of (chunk16 2048 [VolumeUp] (started (wav16 5000) False True)))
      = map (\<lambda>s. DacWrite (2048 + s div ([49, 31, 21, 15, 11, 9, 7, 6, 5, 4, 3, 2, 1] ! nat 11 * 16)))
          (replicate 2048 (- 515))"
    using r16 [unfolded c v h16(4)] a16 by simp
  have d: "dac (started (wav16 5000) False True) = Some (Dac DAC_PORT 12)"
    by (simp add: started_def session_eq wav16_def)
  show ?thesis
    using h8(1-5) h16(1-5) c(3) d by (simp add: t8 t16)
qed

subsection \<open>Reads and the end of the file\<close>

text \<open>
  The reads of a stream that starts with the cursor at frame 0, as after \<open>begin\<close>: no
  exception is raised, so every \<open>buf[i]\<close> is within the buffer; the read of the iteration
  for position \<open>p\<close> starts at frame \<open>p - buffersize\<close> and returns \<open>buffersize\<close> frames;
  and every position is at least \<open>buffersize\<close> and below \<open>total_frames\<close>, so that the
  frames read lie within the file.
\<close>

theorem first_stream_reads_in_bounds:
  "(stream_ready 1 w self \<longrightarrow>
       raised (play8 sched self) = None
     \<and> reads_of (state_of (play8 sched self)) = read_log w
         @ map (\<lambda>p. (p - buffersize self, buffersize self))
             (take (length (levels sched self)) (positions self)))
   \<and> (stream_ready 2 w self \<longrightarrow>
       raised (play16 sched self) = None
     \<and> reads_of (state_of (play16 sched self)) = read_log w
         @ map (\<lambda>p. (p - buffersize self, buffersize self))
             (take (length (levels sched self)) (positions self)))
   \<and> (\<forall>p \<in> set (positions self). buffersize self \<le> p \<and> p < total_frames self)"
proof -
  have r: "map (\<lambda>j. (j * buffersize self, buffersize self)) [0..<length (levels sched self)]
      = map (\<lambda>p. (p - buffersize self, buffersize self))
          (take (length (levels sched self)) (positions self))"
    unfolding positions_def
    by (rule reads_by_position) (use levels_length [of sched self] in \<open>simp add: positions_def\<close>)
  have b: "\<forall>p \<in> set (positions self). buffersize self \<le> p \<and> p < total_frames self"
    unfolding positions_def using py_range_bounds by blast
  show ?thesis
    using play8_summary(1,3) [of w self sched] play16_summary(1,3) [of w self sched] b
    unfolding r by blast
qed

theorem first_stream_reads_in_bounds_witness:
  "stream_ready 1 (wav8 4096 904) (started (wav8 4096 904) True True)
   \<and> raised (play8 [([], [VolumeUp]), ([Stop], [])] (started (wav8 4096 904) True True)) = None
   \<and> reads_of (state_of (play8 [([], [VolumeUp]), ([Stop], [])]
        (started (wav8 4096 904) True True))) = [(0, 2048)]
   \<and> stream_ready 2 (wav16 5000) (started (wav16 5000) False True)
   \<and> raised (play16 [] (started (wav16 5000) False True)) = None
   \<and> reads_of (state_of (play16 [] (started (wav16 5000) False True)))
        = [(0, 2048), (2048, 2048)]
   \<and> 4096 \<in> set (positions (started (wav8 4096 904) True True))
   \<and> buffersize (started (wav8 4096 904) True True) \<le> 4096
   \<and> 4096 < total_frames (started (wav8 4096 904) True True)"
proof -
  note r8 = started_ready(1) [of 4096 904 True True]
  note r16 = started_ready(2) [of 5000 False True]
  note t8 = first_stream_reads_in_bounds [of "wav8 4096 904" "started (wav8 4096 904) True True"
      "[([], [VolumeUp]), ([Stop], [])]"]
  note t16 = first_stream_reads_in_bounds [of "wav16 5000" "started (wav16 5000) False True" "[]"]
  have a: "raised (play8 [([], [VolumeUp]), ([Stop], [])] (started (wav8 4096 904) True True))
        = None"
    "reads_of (state_of (play8 [([], [VolumeUp]), ([Stop], [])]
        (started (wav8 4096 904) True True))) = [(0, 2048)]"
    using t8 r8 by (simp_all add: started_levels started_positions started_fields wav_fields)
  have b: "raised (play16 [] (started (wav16 5000) False True)) = None"
    "reads_of (state_of (play16 [] (started (wav16 5000) False True)))
        = [(0, 2048), (2048, 2048)]"
    using t16 r16 by (simp_all add: started_levels started_positions started_fields wav_fields)
  have c: "4096 \<in> set (positions (started (wav8 4096 904) True True))"
    by (simp add: started_positions)
  with t8 have "buffersize (started (wav8 4096 904) True True) \<le> 4096
      \<and> 4096 < total_frames (started (wav8 4096 904) True True)"
    by blast
  with a b c r8 r16 show ?thesis by simp
qed

text \<open>
  With no more frames than the buffer size the range of positions is empty and the stream
  returns the object unchanged, nothing read and nothing written, wherever the cursor is.
\<close>

lemma short_file_silent:
  assumes "0 < framerate self" and "0 < buffersize self"
    and "total_frames self \<le> buffersize self"
  shows "play8 sched self = Returned self" and "play16 sched self = Returned self"
  using assms by (simp_all add: play8_def play16_def py_range_empty)

text \<open>
  The trace of a stream that starts with the cursor at frame 0, as after \<open>begin\<close>: with
  fewer frames than the buffer size the object is returned unchanged, and in general the
  trace is made of the first \<open>total_frames - total_frames mod buffersize\<close> samples only,
  so that no sample of a final partial chunk is written.
\<close>

theorem first_stream_drops_tail:
  "(stream_ready 1 w self \<longrightarrow>
       (total_frames self < buffersize self \<longrightarrow> play8 sched self = Returned self)
     \<and> hw_trace (state_of (play8 sched self)) = hw_trace self
         @ spec_output (spec_event8 (pwm_out self \<noteq> None) (volumes self)) (buffersize self)
             (take (total_frames self - total_frames self mod buffersize self)
                (array_B (frames w)))
             (levels sched self))
   \<and> (stream_ready 2 w self \<longrightarrow>
       (total_frames self < buffersize self \<longrightarrow> play16 sched self = Returned self)
     \<and> hw_trace (state_of (play16 sched self)) = hw_trace self
         @ spec_output (spec_event16 (pwm_out self \<noteq> None) (volumes self)) (buffersize self)
             (take (total_frames self - total_frames self mod buffersize self)
                (array_h (frames w)))
             (levels sched self))"
proof -
  have "length (levels sched self) * buffersize self
      \<le> length (positions self) * buffersize self"
    using levels_length [of sched self] by simp
  also have "\<dots> \<le> total_frames self - total_frames self mod buffersize self"
    unfolding positions_def by (rule py_range_total)
  finally have n: "buffersize self * length (levels sched self)
      \<le> total_frames self - total_frames self mod buffersize self"
    by (simp add: mult.commute)
  have short8: "play8 sched self = Returned self"
    if "stream_ready 1 w self" "total_frames self < buffersize self"
    using that by (simp add: play8_def stream_ready_def py_range_empty)
  have short16: "play16 sched self = Returned self"
    if "stream_ready 2 w self" "total_frames self < buffersize self"
    using that by (simp add: play16_def stream_ready_def py_range_empty)
  show ?thesis
    unfolding spec_output_take [OF n]
    using play8_summary(2) [of w self sched] play16_summary(2) [of w self sched] short8 short16
    by blast
qed

theorem first_stream_drops_tail_witness:
  "stream_ready 1 (wav8 1000 0) (started (wav8 1000 0) True True)
   \<and> total_frames (started (wav8 1000 0) True True) < buffersize (started (wav8 1000 0) True True)
   \<and> play8 [] (started (wav8 1000 0) True True) = Returned (started (wav8 1000 0) True True)
   \<and> stream_ready 2 (wav16 1000) (started (wav16 1000) False True)
   \<and> total_frames (started (wav16 1000) False True)
        < buffersize (started (wav16 1000) False True)
   \<and> play16 [] (started (wav16 1000) False True) = Returned (started (wav16 1000) False True)
   \<and> stream_ready 1 (wav8 4096 904) (started (wav8 4096 904) True True)
   \<and> hw_trace (state_of (play8 [] (started (wav8 4096 904) True True)))
        = replicate 2048 (PulseWidth 66) @ replicate 2048 (PulseWidth 66)"
proof -
  note r8 = started_ready(1) [of 1000 0 True True]
  note r16 = started_ready(2) [of 1000 False True]
  note r = started_ready(1) [of 4096 904 True True]
  have s8: "total_frames (started (wav8 1000 0) True True)
      < buffersize (started (wav8 1000 0) True True)"
    and s16: "total_frames (started (wav16 1000) False True)
      < buffersize (started (wav16 1000) False True)"
    by (simp_all add: started_fields wav_fields)
  have a: "play8 [] (started (wav8 1000 0) True True) = Returned (started (wav8 1000 0) True True)"
    using first_stream_drops_tail [of "wav8 1000 0" "started (wav8 1000 0) True True" "[]"] r8 s8
    by blast
  have b: "play16 [] (started (wav16 1000) False True)
      = Returned (started (wav16 1000) False True)"
    using first_stream_drops_tail [of "wav16 1000" "started (wav16 1000) False True" "[]"] r16 s16
    by blast
  have "take (5000 - 5000 mod 2048) (array_B (frames (wav8 4096 904))) = replicate 4096 200"
    by (simp add: wav_fields array_B_def)
  then have c: "hw_trace (state_of (play8 [] (started (wav8 4096 904) True True)))
        = replicate 2048 (PulseWidth 66) @ replicate 2048 (PulseWidth 66)"
    using first_stream_drops_tail [of "wav8 4096 904" "started (wav8 4096 904) True True" "[]"] r
    by (simp add: started_fields started_levels wav_fields spec_event8_def)
  from r8 s8 a r16 s16 b r c show ?thesis by simp
qed

subsection \<open>Stopping\<close>

lemma run_command_ready: "ready (run_command c self) = ready self"
  by (cases c)
     (simp_all add: volume_up_def volume_down_def set_volume_def stop_def dac_write_def Let_def
        split: option.splits)

lemma run_commands_ready: "ready (run_commands cs self) = ready self"
  by (induction cs arbitrary: self) (simp_all add: run_command_ready)

lemma run_command_keeps_stop: "fstop self \<Longrightarrow> fstop (run_command c self)"
  by (cases c)
     (simp_all add: volume_up_def volume_down_def set_volume_def stop_def dac_write_def Let_def
        split: option.splits)

lemma run_commands_keeps_stop: "fstop self \<Longrightarrow> fstop (run_commands cs self)"
  by (induction cs arbitrary: self) (simp_all add: run_command_keeps_stop)

lemma stop_sets_flag: "ready self \<Longrightarrow> fstop (run_command Stop self)"
  by (simp add: stop_def dac_write_def Let_def split: option.splits)

lemma stop_call_seen: "ready self \<Longrightarrow> Stop \<in> set cs \<Longrightarrow> fstop (run_commands cs self)"
proof (induction cs arbitrary: self)
  case Nil
  then show ?case by simp
next
  case (Cons c cs)
  show ?case
  proof (cases "c = Stop")
    case True
    then show ?thesis
      using stop_sets_flag [OF Cons.prems(1)] run_commands_keeps_stop by simp
  next
    case False
    then have "Stop \<in> set cs" using Cons.prems(2) by simp
    then show ?thesis
      using Cons.IH [of "run_command c self"] Cons.prems(1) by (simp add: run_command_ready)
  qed
qed

lemma snapshots_stopped:
  "ready self \<Longrightarrow> Stop \<in> set (before_check (drop k sched)) \<Longrightarrow>
   length (snapshots n sched self) \<le> k"
proof (induction k arbitrary: n sched self)
  case 0
  show ?case
  proof (cases n)
    case 0
    then show ?thesis by simp
  next
    case (Suc m)
    have "fstop (run_commands (before_check sched) self)"
      using stop_call_seen [OF "0.prems"(1)] "0.prems"(2) by simp
    then show ?thesis using Suc by (simp add: Let_def)
  qed
next
  case (Suc k)
  show ?case
  proof (cases n)
    case 0
    then show ?thesis by simp
  next
    case n: (Suc m)
    let ?s1 = "run_commands (before_volume sched) (run_commands (before_check sched) self)"
    have "ready ?s1" using Suc.prems(1) by (simp add: run_commands_ready)
    moreover have "Stop \<in> set (before_check (drop k (tl sched)))"
      using Suc.prems(2) by (simp add: drop_Suc)
    ultimately have "length (snapshots m (tl sched) ?s1) \<le> k" by (rule Suc.IH)
    then show ?thesis using n by (simp add: Let_def)
  qed
qed

text \<open>
  C5.  When the stop flag is set at the top of an iteration, the loop returns there and
  the trace is as it was.  For a whole stream: when the controller completes a call of
  \<open>stop\<close> after \<open>k\<close> chunks, before the test of the next iteration, the stream plays at
  most \<open>k\<close> chunks, reads at most \<open>k\<close> times, raises nothing, and its trace is made of the
  first \<open>k * buffersize\<close> samples only.
\<close>

theorem stop_ends_stream:
  "(\<not> loop self \<and> fstop (run_commands (before_check sched) self) \<longrightarrow>
       loop8 (p # rest) sched self = Returned (run_commands (before_check sched) self)
     \<and> loop16 (p # rest) sched self = Returned (run_commands (before_check sched) self)
     \<and> hw_trace (run_commands (before_check sched) self) = hw_trace self)
   \<and> (stream_ready 1 w self \<and> Stop \<in> set (before_check (drop k sched)) \<longrightarrow>
       raised (play8 sched self) = None
     \<and> length (levels sched self) \<le> k
     \<and> hw_trace (state_of (play8 sched self)) = hw_trace self
         @ spec_output (spec_event8 (pwm_out self \<noteq> None) (volumes self)) (buffersize self)
             (take (k * buffersize self) (array_B (frames w))) (levels sched self)
     \<and> length (reads_of (state_of (play8 sched self))) \<le> length (read_log w) + k)
   \<and> (stream_ready 2 w self \<and> Stop \<in> set (before_check (drop k sched)) \<longrightarrow>
       raised (play16 sched self) = None
     \<and> length (levels sched self) \<le> k
     \<and> hw_trace (state_of (play16 sched self)) = hw_trace self
         @ spec_output (spec_event16 (pwm_out self \<noteq> None) (volumes self)) (buffersize self)
             (take (k * buffersize self) (array_h (frames w))) (levels sched self)
     \<and> length (reads_of (state_of (play16 sched self))) \<le> length (read_log w) + k)"
proof -
  have local: "loop8 (p # rest) sched self = Returned (run_commands (before_check sched) self)
     \<and> loop16 (p # rest) sched self = Returned (run_commands (before_check sched) self)
     \<and> hw_trace (run_commands (before_check sched) self) = hw_trace self"
    if "\<not> loop self" "fstop (run_commands (before_check sched) self)"
    using that run_commands_static(3) [of self "before_check sched"] by (simp add: Let_def)
  have lv: "length (levels sched self) \<le> k"
    if "ready self" "Stop \<in> set (before_check (drop k sched))"
    unfolding levels_def by (rule snapshots_stopped [OF that])
  have tk: "spec_output ev (buffersize self) (take (k * buffersize self) xs) (levels sched self)
      = spec_output ev (buffersize self) xs (levels sched self)"
    if "length (levels sched self) \<le> k" for ev xs
    by (rule spec_output_take) (use that in \<open>simp add: mult.commute\<close>)
  have g8: "raised (play8 sched self) = None
     \<and> length (levels sched self) \<le> k
     \<and> hw_trace (state_of (play8 sched self)) = hw_trace self
         @ spec_output (spec_event8 (pwm_out self \<noteq> None) (volumes self)) (buffersize self)
             (take (k * buffersize self) (array_B (frames w))) (levels sched self)
     \<and> length (reads_of (state_of (play8 sched self))) \<le> length (read_log w) + k"
    if r: "stream_ready 1 w self" and s: "Stop \<in> set (before_check (drop k sched))"
  proof -
    have "ready self" using r by (simp add: stream_ready_def)
    from lv [OF this s] show ?thesis
      using play8_summary [OF r, of sched] by (simp add: tk)
  qed
  have g16: "raised (play16 sched self) = None
     \<and> length (levels sched self) \<le> k
     \<and> hw_trace (state_of (play16 sched self)) = hw_trace self
         @ spec_output (spec_event16 (pwm_out self \<noteq> None) (volumes self)) (buffersize self)
             (take (k * buffersize self) (array_h (frames w))) (levels sched self)
     \<and> length (reads_of (state_of (play16 sched self))) \<le> length (read_log w) + k"
    if r: "stream_ready 2 w self" and s: "Stop \<in> set (before_check (drop k sched))"
  proof -
    have "ready self" using r by (simp add: stream_ready_def)
    from lv [OF this s] show ?thesis
      using play16_summary [OF r, of sched] by (simp add: tk)
  qed
  show ?thesis using local g8 g16 by blast
qed

theorem stop_ends_stream_witness:
  "\<not> loop (started (wav8 4096 904) True True)
   \<and> fstop (run_commands (before_check [([Stop], [])]) (started (wav8 4096 904) True True))
   \<and> loop8 [2048, 4096] [([Stop], [])] (started (wav8 4096 904) True True)
        = Returned ((started (wav8 4096 904) True True)\<lparr>fstop := True\<rparr>)
   \<and> stream_ready 1 (wav8 4096 904) (started (wav8 4096 904) True True)
   \<and> Stop \<in> set (before_check (drop 1 [([], []), ([Stop], [])]))
   \<and> hw_trace (state_of (play8 [([], []), ([Stop], [])] (started (wav8 4096 904) True True)))
        = replicate 2048 (PulseWidth 66)
   \<and> stream_ready 2 (wav16 5000) (started (wav16 5000) False True)
   \<and> hw_trace (state_of (play16 [([], []), ([Stop], [])] (started (wav16 5000) False True)))
        = replicate 2048 (DacWrite 2037)"
proof -
  note r8 = started_ready(1) [of 4096 904 True True]
  note r16 = started_ready(2) [of 5000 False True]
  have st: "Stop \<in> set (before_check (drop 1 [([], []), ([Stop], [])]))"
    by (simp add: before_check_def)
  have f: "run_commands (before_check [([Stop], [])]) (started (wav8 4096 904) True True)
      = (started (wav8 4096 904) True True)\<lparr>fstop := True\<rparr>"
    by (simp add: before_check_def stop_def started_def session_eq)
  have nl: "\<not> loop (started (wav8 4096 904) True True)" by (simp add: started_fields)
  have fs: "fstop (run_commands (before_check [([Stop], [])]) (started (wav8 4096 904) True True))"
    by (simp add: f)
  have a: "loop8 [2048, 4096] [([Stop], [])] (started (wav8 4096 904) True True)
        = Returned ((started (wav8 4096 904) True True)\<lparr>fstop := True\<rparr>)"
    using stop_ends_stream [of "started (wav8 4096 904) True True" "[([Stop], [])]"
        2048 "[4096]"] nl fs
    unfolding f by blast
  have "take (1 * 2048) (array_B (frames (wav8 4096 904))) = replicate 2048 200"
    by (simp add: wav_fields array_B_def)
  then have b: "hw_trace (state_of (play8 [([], []), ([Stop], [])]
        (started (wav8 4096 904) True True))) = replicate 2048 (PulseWidth 66)"
    using stop_ends_stream [of "started (wav8 4096 904) True True" "[([], []), ([Stop], [])]"
        _ _ "wav8 4096 904" 1] r8 st
    by (simp add: started_fields started_levels spec_event8_def)
  have "take (1 * 2048) (array_h (frames (wav16 5000))) = replicate 2048 (- 515)"
    by (simp only: wav_fields array_h_replicate) simp
  then have c: "hw_trace (state_of (play16 [([], []), ([Stop], [])]
        (started (wav16 5000) False True))) = replicate 2048 (DacWrite 2037)"
    using stop_ends_stream [of "started (wav16 5000) False True" "[([], []), ([Stop], [])]"
        _ _ "wav16 5000" 1] r16 st
    by (simp add: started_fields started_levels spec_event16_def)
  from nl fs a r8 st b r16 c show ?thesis by simp
qed

subsection \<open>A file of two chunks\<close>

lemma play_session8:
  "play sched (session (wav8 n m) pwm False) = play8 [] (started (wav8 n m) pwm False)"
  by (simp add: play_def session_eq started_def wav8_def)

lemma play_sync8:
  "ready self \<Longrightarrow> \<not> loop self \<Longrightarrow> adatawidth self = 8 \<Longrightarrow> \<not> threading self \<Longrightarrow>
   play sched self = play8 [] (self\<lparr>fstop := False\<rparr>)"
  by (simp add: play_def)

text \<open>
  C3.  On an 8-bit file of exactly twice the buffer size, \<open>play\<close> without a thread returns
  without an exception after 2048 writes, one buffer, not two: the range of positions stops
  before \<open>total_frames\<close>, so the chunk that ends at \<open>total_frames\<close> is never played.
\<close>

theorem two_chunks_one_played:
  "total_frames (session (wav8 4096 0) True False)
     = 2 * buffersize (session (wav8 4096 0) True False)
   \<and> raised (play [] (session (wav8 4096 0) True False)) = None
   \<and> hw_trace (state_of (play [] (session (wav8 4096 0) True False)))
       = replicate 2048 (PulseWidth 66)"
proof -
  note r = started_ready(1) [of 4096 0 True False]
  have t: "total_frames (session (wav8 4096 0) True False)
     = 2 * buffersize (session (wav8 4096 0) True False)"
    by (simp add: session_eq wav_fields)
  have "take 2048 (array_B (frames (wav8 4096 0))) = replicate 2048 200"
    by (simp add: wav_fields array_B_def)
  then have "spec_output (spec_event8 True [49, 31, 21, 15, 11, 9, 7, 6, 5, 4, 3, 2, 1]) 2048
      (array_B (frames (wav8 4096 0))) [10] = replicate 2048 (PulseWidth 66)"
    by (simp add: spec_event8_def)
  then show ?thesis
    using play8_summary(1,2) [OF r, of "[]"] t
    by (simp add: play_session8 started_fields started_levels)
qed

subsection \<open>Playing again without a new \<open>begin\<close>\<close>

text \<open>
  A stream leaves the cursor at its last position, and neither \<open>play\<close> nor the stream
  rewinds it: only \<open>begin\<close> opens the file anew.  A second \<open>play\<close> therefore starts
  reading where the first one stopped, while its positions start at \<open>buffersize\<close> again.
\<close>

lemma play8_short_read:
  assumes af: "audiofile self = Some w" and sw: "sampwidth w = 1" and nl: "\<not> loop self"
    and tab: "volumes self = [49, 31, 21, 15, 11, 9, 7, 6, 5, 4, 3, 2, 1]"
    and vr: "0 \<le> volume self \<and> volume self \<le> 12"
    and be: "pwm_out self \<noteq> None \<or> dac self \<noteq> None"
    and fr: "0 < framerate self" and run: "\<not> fstop self"
    and more: "buffersize self < total_frames self"
    and tf: "total_frames self \<le> getnframes w"
    and short: "length (frames w) - soundpos w < buffersize self"
  shows "play8 [] self =
     Raised IndexError (self
       \<lparr> framedata := drop (soundpos w) (frames w),
         audiofile := Some (w\<lparr>soundpos := buffersize self,
            read_log := read_log w @ [(soundpos w, length (frames w) - soundpos w)]\<rparr>),
         hw_trace := hw_trace self
           @ map (spec_event8 (pwm_out self \<noteq> None) (volumes self) (volume self))
               (array_B (drop (soundpos w) (frames w))) \<rparr>)"
proof -
  let ?B = "buffersize self"
  have B: "0 < ?B" using short by simp
  have pos: "?B \<le> getnframes w" using more tf by simp
  have pr: "py_range ?B (total_frames self) ?B
      = ?B # py_range (?B + ?B) (total_frames self) ?B"
    by (rule py_range_step) (use B more in simp)
  have data: "take (?B * sampwidth w) (drop (soundpos w * sampwidth w) (frames w))
      = drop (soundpos w) (frames w)"
    using short sw by simp
  have len: "\<not> ?B \<le> length (array_B (drop (soundpos w) (frames w)))"
    using short by (simp add: array_B_def)
  have tk: "take ?B (array_B (drop (soundpos w) (frames w)))
      = array_B (drop (soundpos w) (frames w))"
    using short by (simp add: array_B_def)
  have ch: "chunk8 ?B [] self =
     Raised IndexError (self
       \<lparr> framedata := drop (soundpos w) (frames w),
         audiofile := Some (w\<lparr>soundpos := ?B,
            read_log := read_log w @ [(soundpos w, length (frames w) - soundpos w)]\<rparr>),
         hw_trace := hw_trace self
           @ map (spec_event8 (pwm_out self \<noteq> None) (volumes self) (volume self))
               (array_B (drop (soundpos w) (frames w))) \<rparr>)"
    unfolding chunk8_any [OF af pos nl tab vr be, of "[]"] data
    using len sw by (simp add: tk)
  show ?thesis
    using fr B run by (simp add: play8_def pr before_check_def before_volume_def ch)
qed

lemma first_play:
  "raised (play [] (session (wav8 4096 904) True False)) = None"
  "audiofile (state_of (play [] (session (wav8 4096 904) True False)))
     = Some ((wav8 4096 904)\<lparr>soundpos := 4096, read_log := [(0, 2048), (2048, 2048)]\<rparr>)"
  "config (state_of (play [] (session (wav8 4096 904) True False)))
     = config (started (wav8 4096 904) True False)"
  "volume (state_of (play [] (session (wav8 4096 904) True False))) = 10"
  "fstop (state_of (play [] (session (wav8 4096 904) True False))) = False"
proof -
  let ?S = "started (wav8 4096 904) True False"
  have lv: "snapshots (length (py_range (buffersize ?S) (total_frames ?S) (buffersize ?S))) [] ?S
      = [10, 10]"
    using started_levels(1) [of True False] by (simp add: levels_def positions_def)
  from play8_run [OF started_ready(1) [of 4096 904 True False], where sched = "[]"]
  obtain s1 where
    p: "play8 [] ?S = Returned s1"
    and af: "audiofile s1 = Some ((wav8 4096 904)\<lparr>soundpos := buffersize ?S * length [10, 10 :: int],
          read_log := read_log (wav8 4096 904) @ map (\<lambda>j. (j * buffersize ?S, buffersize ?S))
            [0..<length [10, 10 :: int]]\<rparr>)"
    and cfg: "config s1 = config ?S"
    and q: "volume s1 = volume ?S \<and> fstop s1 = fstop ?S"
    unfolding lv by blast
  have two: "[0..<2] = [0, 1]" by (simp add: upt_rec)
  show "raised (play [] (session (wav8 4096 904) True False)) = None"
    by (simp add: play_session8 p)
  show "audiofile (state_of (play [] (session (wav8 4096 904) True False)))
     = Some ((wav8 4096 904)\<lparr>soundpos := 4096, read_log := [(0, 2048), (2048, 2048)]\<rparr>)"
    using af by (simp add: play_session8 p started_fields wav_fields two)
  show "config (state_of (play [] (session (wav8 4096 904) True False))) = config ?S"
    using cfg by (simp add: play_session8 p)
  show "volume (state_of (play [] (session (wav8 4096 904) True False))) = 10"
    using q by (simp add: play_session8 p started_fields)
  show "fstop (state_of (play [] (session (wav8 4096 904) True False))) = False"
    using q by (simp add: play_session8 p started_fields)
qed

lemma second_play:
  "play [] (state_of (play [] (session (wav8 4096 904) True False))) =
     Raised IndexError ((state_of (play [] (session (wav8 4096 904) True False)))
       \<lparr> framedata := replicate 904 98,
         audiofile := Some ((wav8 4096 904)\<lparr>soundpos := 2048,
            read_log := [(0, 2048), (2048, 2048), (4096, 904)]\<rparr>),
         hw_trace := hw_trace (state_of (play [] (session (wav8 4096 904) True False)))
           @ replicate 904 (PulseWidth 32) \<rparr>)"
proof -
  let ?S = "started (wav8 4096 904) True False"
  let ?s1 = "state_of (play [] (session (wav8 4096 904) True False))"
  let ?w1 = "(wav8 4096 904)\<lparr>soundpos := 4096, read_log := [(0, 2048), (2048, 2048)]\<rparr>"
  have c: "ready ?s1" "\<not> loop ?s1" "adatawidth ?s1 = 8" "\<not> threading ?s1"
    "buffersize ?s1 = 2048" "total_frames ?s1 = 5000" "framerate ?s1 = 8000"
    "volumes ?s1 = [49, 31, 21, 15, 11, 9, 7, 6, 5, 4, 3, 2, 1]"
    "pwm_out ?s1 = Some (PwmChannel CHANNEL PIN 50)"
    using first_play(3)
    by (simp_all add: config_def started_def session_eq wav8_def getnframes_def)
  have "?s1\<lparr>fstop := fstop ?s1\<rparr> = ?s1" by simp
  then have same: "?s1\<lparr>fstop := False\<rparr> = ?s1"
    unfolding first_play(5) .
  have pl: "play [] ?s1 = play8 [] ?s1"
    using play_sync8 [OF c(1-4), of "[]"] unfolding same .
  have w1: "sampwidth ?w1 = 1" "getnframes ?w1 = 5000" "soundpos ?w1 = 4096"
    "frames ?w1 = replicate 4096 200 @ replicate 904 98"
    "read_log ?w1 = [(0, 2048), (2048, 2048)]"
    by (simp_all add: wav8_def getnframes_def)
  have "play8 [] ?s1 =
     Raised IndexError (?s1
       \<lparr> framedata := drop (soundpos ?w1) (frames ?w1),
         audiofile := Some (?w1\<lparr>soundpos := buffersize ?s1,
            read_log := read_log ?w1 @ [(soundpos ?w1, length (frames ?w1) - soundpos ?w1)]\<rparr>),
         hw_trace := hw_trace ?s1
           @ map (spec_event8 (pwm_out ?s1 \<noteq> None) (volumes ?s1) (volume ?s1))
               (array_B (drop (soundpos ?w1) (frames ?w1))) \<rparr>)"
    by (rule play8_short_read [OF first_play(2)])
       (simp_all add: c w1 first_play(4,5))
  then show ?thesis
    unfolding pl
    by (simp add: c w1 first_play(4) array_B_def spec_event8_def)
qed

text \<open>
  C4.  The reads of a stream are not always full ones within bounds.  On the file of 5000
  frames, the first iteration of the second \<open>play\<close>, for position 2048, reads from frame
  4096, not from frame 0, and gets 904 frames, not 2048; \<open>buf[904]\<close> is then out of
  bounds and raises \<open>IndexError\<close>, which nothing catches.
\<close>

theorem replay_reads_short:
  "raised (play [] (state_of (play [] (session (wav8 4096 904) True False))))
     = Some IndexError
   \<and> reads_of (state_of (play [] (state_of (play [] (session (wav8 4096 904) True False)))))
     = [(0, 2048), (2048, 2048), (4096, 904)]"
  by (simp add: second_play reads_of_def)

text \<open>
  C2.  The samples of the final partial chunk are not always left unwritten.  5000 is not
  a multiple of 2048, the final partial chunk is the 904 frames from 4096 on, each the
  sample 98, and the second \<open>play\<close> writes all of them, divided by the divisor 3 of volume
  level 10, before it raises.
\<close>

theorem replay_plays_tail:
  "total_frames (session (wav8 4096 904) True False)
     mod buffersize (session (wav8 4096 904) True False) = 904
   \<and> drop (5000 - 904) (array_B (frames (wav8 4096 904))) = replicate 904 98
   \<and> hw_trace (state_of (play [] (state_of (play [] (session (wav8 4096 904) True False)))))
     = hw_trace (state_of (play [] (session (wav8 4096 904) True False)))
       @ replicate 904 (PulseWidth (98 div 3))"
proof -
  have "total_frames (session (wav8 4096 904) True False)
     mod buffersize (session (wav8 4096 904) True False) = 904"
    by (simp add: session_eq wav_fields)
  moreover have "drop (5000 - 904) (array_B (frames (wav8 4096 904))) = replicate 904 98"
    by (simp add: wav_fields array_B_def)
  moreover have "hw_trace (state_of (play [] (state_of (play []
        (session (wav8 4096 904) True False)))))
     = hw_trace (state_of (play [] (session (wav8 4096 904) True False)))
       @ replicate 904 (PulseWidth (98 div 3))"
    by (simp add: second_play)
  ultimately show ?thesis by blast
qed

subsection \<open>The sample period\<close>





















end
